theory Spec2Isabelle
  imports Complex_Main "HOL-Library.Word"
begin

unbundle bit_operations_syntax

section \<open>Strings and numbers of the source language\<close>

text \<open>
  The program is JavaScript. Strings are modelled as \<^typ>\<open>string\<close>, a list of code units
  below 256: the white space that \<open>trim\<close> and \<open>parseInt\<close> skip is, among these, tab, line
  feed, vertical tab, form feed, carriage return, space and the no-break space.
  \<open>null\<close> and \<open>undefined\<close> are both \<open>None\<close> of an option type: no test of the source
  tells them apart on the paths modelled here.

  Numbers are doubles. Every number the index computes is an integer (or a fraction that
  is truncated at once), so a finite number is modelled by the integer it holds, and
  \<open>toDouble\<close> rounds an integer to the nearest double, to the even one on a tie: a
  magnitude below \<open>2 ^ 53\<close> is held exactly, one of \<open>2 ^ 1024\<close> or more after rounding is an
  infinity, which is \<open>None\<close>. In the retry wrapper the waits are exact rationals.
\<close>

datatype jsval = JNull | JBool bool | JNum int | JStr string

definition isWhite :: "char \<Rightarrow> bool" where
  "isWhite c = (c = CHR 0x20 \<or> c = CHR 0x09 \<or> c = CHR 0x0A \<or> c = CHR 0x0B \<or> c = CHR 0x0C \<or> c = CHR 0x0D
                \<or> c = CHR 0xA0)"

definition trim :: "string \<Rightarrow> string" where
  "trim s = rev (dropWhile isWhite (rev (dropWhile isWhite s)))"

text \<open>\<open>s.split(d)\<close> for a one-character separator: never an empty list.\<close>

fun splitOn :: "char \<Rightarrow> string \<Rightarrow> string list" where
  "splitOn d [] = [[]]"
| "splitOn d (c # cs) =
     (if c = d then [] # splitOn d cs
      else (case splitOn d cs of [] \<Rightarrow> [[c]] | p # ps \<Rightarrow> (c # p) # ps))"

text \<open>\<open>s.includes(t)\<close> and \<open>s.startsWith(t)\<close>.\<close>

definition startsWith :: "string \<Rightarrow> string \<Rightarrow> bool" where
  "startsWith s t = (take (length t) s = t)"

fun includesStr :: "string \<Rightarrow> string \<Rightarrow> bool" where
  "includesStr [] t = (t = [])"
| "includesStr (c # cs) t = (startsWith (c # cs) t \<or> includesStr cs t)"

definition digitVal :: "char \<Rightarrow> nat option" where
  "digitVal c =
     (let n = (of_char c :: nat) in
      if 48 \<le> n \<and> n \<le> 57 then Some (n - 48)
      else if 97 \<le> n \<and> n \<le> 102 then Some (n - 87)
      else if 65 \<le> n \<and> n \<le> 70 then Some (n - 55)
      else None)"

definition isDigitIn :: "nat \<Rightarrow> char \<Rightarrow> bool" where
  "isDigitIn R c = (case digitVal c of None \<Rightarrow> False | Some v \<Rightarrow> v < R)"

definition digitsValue :: "nat \<Rightarrow> string \<Rightarrow> int" where
  "digitsValue R ds =
     foldl (\<lambda>acc c. case digitVal c of None \<Rightarrow> acc | Some v \<Rightarrow> acc * int R + int v) 0 ds"

definition parseDigits :: "nat \<Rightarrow> string \<Rightarrow> int option" where
  "parseDigits R s =
     (let ds = takeWhile (isDigitIn R) s in if ds = [] then None else Some (digitsValue R ds))"

text \<open>The sign of \<open>parseInt\<close>: leading white space is skipped, then one \<open>+\<close> or \<open>-\<close>.\<close>

definition signAndRest :: "string \<Rightarrow> bool \<times> string" where
  "signAndRest s =
     (case dropWhile isWhite s of
        [] \<Rightarrow> (False, [])
      | c # cs \<Rightarrow> if c = CHR ''-'' then (True, cs) else if c = CHR ''+'' then (False, cs) else (False, c # cs))"

text \<open>
  \<open>parseInt(s, 10)\<close>: the integer written by the longest prefix of decimal digits, before
  it is rounded to a double; \<open>None\<close> is \<open>NaN\<close>, when there is no digit. (The language
  lets an implementation replace the digits after the twentieth by zeros; the model
  keeps them.)
\<close>

definition parseInt10 :: "string \<Rightarrow> int option" where
  "parseInt10 s =
     (case signAndRest s of (neg, r) \<Rightarrow>
        map_option (\<lambda>v. if neg then - v else v) (parseDigits 10 r))"

text \<open>\<open>parseInt(s)\<close> with no radix: as above, but a prefix \<open>0x\<close> or \<open>0X\<close> selects radix 16.\<close>

definition parseInt :: "string \<Rightarrow> int option" where
  "parseInt s =
     (case signAndRest s of (neg, r) \<Rightarrow>
        map_option (\<lambda>v. if neg then - v else v)
          (if take 2 r = ''0x'' \<or> take 2 r = ''0X'' then parseDigits 16 (drop 2 r)
           else parseDigits 10 r))"

text \<open>The number of binary digits of a positive integer, and the rounding to a double.\<close>

function bitLength :: "int \<Rightarrow> nat" where
  "bitLength n = (if n \<le> 0 then 0 else Suc (bitLength (n div 2)))"
  by pat_completeness auto
termination
  by (relation "measure nat") auto

definition toDouble :: "int \<Rightarrow> int option" where
  "toDouble x =
     (let m = \<bar>x\<bar>; e = bitLength m - 53; q = m div 2 ^ e; r = m mod 2 ^ e;
          q = (if 2 ^ e < 2 * r \<or> (2 ^ e = 2 * r \<and> odd q) then q + 1 else q)
      in if 1024 < bitLength q + e then None
         else Some (if x < 0 then - (q * 2 ^ e) else q * 2 ^ e))"

text \<open>
  Product with a positive constant, sum, and \<open>>>> 0\<close>, on numbers that may be \<open>NaN\<close> or
  infinite (\<open>None\<close>): such an operand makes the product and the sum \<open>NaN\<close> or infinite, and
  \<open>>>> 0\<close> turns both into 0.
\<close>

definition jsTimes :: "int option \<Rightarrow> int \<Rightarrow> int option" where
  "jsTimes x c = Option.bind x (\<lambda>v. toDouble (v * c))"

definition jsPlus :: "int option \<Rightarrow> int option \<Rightarrow> int option" where
  "jsPlus x y = Option.bind x (\<lambda>v. Option.bind y (\<lambda>w. toDouble (v + w)))"

definition toUint32 :: "int option \<Rightarrow> 32 word" where
  "toUint32 x = (case x of None \<Rightarrow> 0 | Some v \<Rightarrow> word_of_int v)"

text \<open>\<open>v || d\<close> on a string that may be absent: the empty string is falsy too.\<close>

definition truthy :: "string option \<Rightarrow> bool" where
  "truthy v = (case v of None \<Rightarrow> False | Some s \<Rightarrow> s \<noteq> [])"

definition orElse :: "string option \<Rightarrow> string option \<Rightarrow> string option" where
  "orElse v d = (if truthy v then v else d)"

definition orDefault :: "string option \<Rightarrow> string \<Rightarrow> string" where
  "orDefault v d = (case v of None \<Rightarrow> d | Some s \<Rightarrow> if s = [] then d else s)"

section \<open>The index of reputation entries (bot-data.js)\<close>

text \<open>
  \<open>ipToLong\<close>: the four parts of the dotted address, each read by \<open>parseInt(_, 10)\<close>,
  combined and converted to an unsigned 32-bit number by \<open>>>> 0\<close>. Anything that is not
  four parts, or has a part that does not start with a digit, gives 0.
\<close>

definition partNumber :: "string \<Rightarrow> int option" where
  "partNumber p = Option.bind (parseInt10 p) toDouble"

definition ipToLong :: "string \<Rightarrow> 32 word" where
  "ipToLong ip =
     (if ip = [] then 0
      else (case splitOn CHR ''.'' ip of
              [a, b, c, d] \<Rightarrow>
                toUint32
                  (jsPlus
                     (jsPlus
                        (jsPlus (jsTimes (partNumber a) 16777216) (jsTimes (partNumber b) 65536))
                        (jsTimes (partNumber c) 256))
                     (partNumber d))
            | _ \<Rightarrow> 0))"

record entry =
  e_range :: string
  e_type :: string
  e_name :: string
  e_category :: string
  e_rating :: string
  e_source :: string
  e_datacenter :: "string option"

record rangeRec =
  r_start :: "32 word"
  r_end :: "32 word"
  r_data :: entry

record botData =
  singleIPs :: "string \<rightharpoonup> entry"
  sortedRanges :: "rangeRec list"

definition emptyData :: botData where
  "emptyData = \<lparr>singleIPs = Map.empty, sortedRanges = []\<rparr>"

definition isGeneric :: "string \<Rightarrow> bool" where
  "isGeneric n = (n = [] \<or> n = ''Unknown'' \<or> n = ''Uncategorized'')"

definition isDC :: "string \<Rightarrow> bool" where
  "isDC t = (t = ''datacenter'')"

text \<open>The closure \<open>merge\<close> of \<open>addEntry\<close>; \<open>existing\<close> is \<open>None\<close> when the map has no entry.\<close>

definition merge :: "entry option \<Rightarrow> entry \<Rightarrow> entry" where
  "merge existing incoming =
     (case existing of
        None \<Rightarrow> incoming
      | Some ex \<Rightarrow>
          (let merged =
                 (if e_type incoming = ''bot'' \<and> \<not> isGeneric (e_name incoming)
                     \<and> (isDC (e_type ex) \<or> isGeneric (e_name ex))
                  then ex\<lparr>e_name := e_name incoming, e_type := ''bot'',
                          e_category := e_category incoming, e_rating := e_rating incoming,
                          e_source := e_source ex @ '' + '' @ e_source incoming\<rparr>
                  else ex)
           in if e_type incoming = ''datacenter'' \<and> e_type merged = ''bot''
              then merged\<lparr>e_datacenter := Some (e_name incoming),
                          e_source := e_source merged @ '' (DC: '' @ e_source incoming @ '')''\<rparr>
              else if e_type incoming = ''datacenter'' \<and> e_type merged = ''datacenter''
              then (if isGeneric (e_name merged) \<and> \<not> isGeneric (e_name incoming)
                    then merged\<lparr>e_name := e_name incoming\<rparr> else merged)
              else merged))"

definition newData :: "string \<Rightarrow> string \<Rightarrow> string option \<Rightarrow> string option \<Rightarrow> string option \<Rightarrow> string \<Rightarrow> entry" where
  "newData cleanRange type name category rating source =
     \<lparr>e_range = cleanRange, e_type = type, e_name = orDefault name ''Unknown'',
      e_category = orDefault category ''Uncategorized'', e_rating = orDefault rating ''neutral'',
      e_source = source, e_datacenter = None\<rparr>"

text \<open>
  The bounds of a CIDR range as \<open>addEntry\<close> computes them from the address and the parsed
  prefix length; \<open>bitmask\<close> is the integer \<open>parseInt\<close> read. \<open>shiftBy\<close> is the double
  \<open>32 - bitmask\<close>, \<open>None\<close> when \<open>bitmask\<close> is an infinity (then \<open>32 - bitmask\<close> is the
  opposite infinity).

  \<open>0xFFFFFFFF << (32 - bitmask)\<close> is a 32-bit shift, whose count is taken modulo 32 (and is
  0 for an infinity), so a prefix length of 0 shifts by 0 and leaves the address as it is.

  \<open>Math.pow(2, 32 - bitmask)\<close> is infinite from the exponent 1024 on, and \<open>>>> 0\<close> turns the
  infinite sum into 0. For an exponent from 0 to 1023 it is a power of two, and the
  difference with 1 and the sum with \<open>start\<close> are rounded. For a negative exponent it is a
  proper fraction (or 0): down to the exponent -53 the difference with 1 lies strictly
  between -1 and 0, below that it is -1; the sum with \<open>start\<close> then lies between
  \<open>start - 1\<close> and \<open>start\<close>, and \<open>>>> 0\<close> truncates it towards zero.
\<close>

definition shiftBy :: "int \<Rightarrow> int option" where
  "shiftBy bitmask = Option.bind (toDouble bitmask) (\<lambda>b. toDouble (32 - b))"

definition cidrStart :: "32 word \<Rightarrow> int \<Rightarrow> 32 word" where
  "cidrStart ipl bitmask =
     ipl AND push_bit (case shiftBy bitmask of None \<Rightarrow> 0 | Some x \<Rightarrow> nat (x mod 32)) (- 1)"

definition cidrEnd :: "32 word \<Rightarrow> int \<Rightarrow> 32 word" where
  "cidrEnd start bitmask =
     (case shiftBy bitmask of
        None \<Rightarrow> if bitmask < 0 then 0 else start - 1
      | Some x \<Rightarrow>
          if 1024 \<le> x then 0
          else if 0 \<le> x then toUint32 (jsPlus (Some (uint start)) (toDouble (2 ^ nat x - 1)))
          else if start = 0 \<and> - 54 < x then 0
          else start - 1)"

text \<open>\<open>findIndex\<close>: the first position whose element satisfies the test; \<open>None\<close> is \<open>-1\<close>.\<close>

fun findIndex :: "('a \<Rightarrow> bool) \<Rightarrow> 'a list \<Rightarrow> nat option" where
  "findIndex p [] = None"
| "findIndex p (x # xs) = (if p x then Some 0 else map_option Suc (findIndex p xs))"

definition addEntry ::
  "string \<Rightarrow> string \<Rightarrow> string option \<Rightarrow> string option \<Rightarrow> string option \<Rightarrow> string \<Rightarrow> botData \<Rightarrow> botData" where
  "addEntry rng type name category rating source bd =
     (if rng = [] then bd
      else
        let cleanRange = trim rng;
            new = newData cleanRange type name category rating source
        in if CHR ''/'' \<in> set cleanRange then
             (case splitOn CHR ''/'' cleanRange of
                ip # msk # _ \<Rightarrow>
                  (case parseInt10 msk of
                     None \<Rightarrow> bd
                   | Some bitmask \<Rightarrow>
                       let start = cidrStart (ipToLong ip) bitmask;
                           endv = cidrEnd start bitmask
                       in (case findIndex (\<lambda>r. r_start r = start \<and> r_end r = endv) (sortedRanges bd) of
                             Some i \<Rightarrow>
                               bd\<lparr>sortedRanges :=
                                    (sortedRanges bd)
                                      [i := (sortedRanges bd ! i)
                                              \<lparr>r_data := merge (Some (r_data (sortedRanges bd ! i))) new\<rparr>]\<rparr>
                           | None \<Rightarrow>
                               bd\<lparr>sortedRanges :=
                                    sortedRanges bd @ [\<lparr>r_start = start, r_end = endv, r_data = new\<rparr>]\<rparr>))
              | _ \<Rightarrow> bd)
           else bd\<lparr>singleIPs := (singleIPs bd)(cleanRange \<mapsto> merge (singleIPs bd cleanRange) new)\<rparr>)"

text \<open>
  The feeds call \<open>addEntry\<close> once per tuple; \<open>loadAllBotData\<close> then sorts the ranges by
  their start (the sort is stable) and hands out the map and \<open>findInRange\<close>.
\<close>

type_synonym feedTuple = "string \<times> string \<times> string option \<times> string option \<times> string option \<times> string"

definition addTuple :: "botData \<Rightarrow> feedTuple \<Rightarrow> botData" where
  "addTuple bd t = (case t of (rng, type, name, category, rating, source) \<Rightarrow>
     addEntry rng type name category rating source bd)"

definition sortRanges :: "botData \<Rightarrow> botData" where
  "sortRanges bd = bd\<lparr>sortedRanges := sort_key r_start (sortedRanges bd)\<rparr>"

definition loadAllBotData :: "feedTuple list \<Rightarrow> botData" where
  "loadAllBotData feed = sortRanges (foldl addTuple emptyData feed)"

text \<open>The binary search of \<open>findInRange\<close>; \<open>low\<close> and \<open>high\<close> are the loop's variables.\<close>

function findLoop :: "rangeRec list \<Rightarrow> 32 word \<Rightarrow> int \<Rightarrow> int \<Rightarrow> entry option" where
  "findLoop rs target low high =
     (if low \<le> high then
        (let mid = (low + high) div 2; rng = rs ! nat mid
         in if r_start rng \<le> target \<and> target \<le> r_end rng then Some (r_data rng)
            else if target < r_start rng then findLoop rs target low (mid - 1)
            else findLoop rs target (mid + 1) high)
      else None)"
  by pat_completeness auto
termination
  by (relation "measure (\<lambda>(rs, target, low, high). nat (high - low + 1))") auto

definition findInRange :: "botData \<Rightarrow> string \<Rightarrow> entry option" where
  "findInRange bd ip =
     (let target = ipToLong ip
      in if target = 0 then None
         else findLoop (sortedRanges bd) target 0 (int (length (sortedRanges bd)) - 1))"

section \<open>The classification of one address and user agent (index.js, checkBot)\<close>

record analysis =
  isBot :: bool
  isGoodBot :: "bool option"
  botName :: "string option"
  botType :: "string option"
  botSource :: "string option"
  isDatacenter :: bool
  datacenterName :: "string option"

definition initResult :: analysis where
  "initResult = \<lparr>isBot = False, isGoodBot = None, botName = None, botType = None,
     botSource = None, isDatacenter = False, datacenterName = None\<rparr>"

text \<open>
  The variable \<open>match\<close> of \<open>checkBot\<close>: the exact match, the range match, or the two
  combined by the object spread (the exact match's fields win, and \<open>datacenter\<close>, \<open>name\<close>
  and \<open>source\<close> are computed).
\<close>

definition ipMatch :: "botData \<Rightarrow> string \<Rightarrow> entry option" where
  "ipMatch bd ip =
     (let singleMatch = singleIPs bd ip; rangeMatch = findInRange bd ip
      in case rangeMatch of
           None \<Rightarrow> singleMatch
         | Some rm \<Rightarrow>
             (case singleMatch of
                None \<Rightarrow> Some rm
              | Some sm \<Rightarrow>
                  Some (sm\<lparr>e_datacenter :=
                              orElse (orElse (e_datacenter sm) (e_datacenter rm))
                                (if e_type rm = ''datacenter'' then Some (e_name rm) else None),
                            e_name :=
                              (if e_name sm \<noteq> [] \<and> e_name sm \<noteq> ''Unknown'' then e_name sm
                               else if e_name rm \<noteq> ''Unknown'' then e_name rm else ''Unknown''),
                            e_source := e_source sm @ '' + '' @ e_source rm\<rparr>)))"

definition untaggedNames :: "string list" where
  "untaggedNames = [''Firehol Blocklist'', ''Avastel Blocklist'', ''Unknown'', ''Uncategorized'']"

definition scrub :: "string option \<Rightarrow> string option" where
  "scrub n = (case n of None \<Rightarrow> None | Some s \<Rightarrow> if s \<in> set untaggedNames then None else Some s)"

text \<open>The body of \<open>if (match) { ... }\<close>.\<close>

definition applyIpMatch :: "entry \<Rightarrow> analysis \<Rightarrow> analysis" where
  "applyIpMatch m result =
     (let r1 =
            (if e_type m = ''bot'' then
               (let b = result\<lparr>isBot := True,
                          botName := (if e_name m \<noteq> [] \<and> e_name m \<noteq> ''Unknown'' then Some (e_name m) else None),
                          botType := Some (if e_category m \<noteq> [] \<and> e_category m \<noteq> ''Uncategorized''
                                           then e_category m else ''Unknown''),
                          botSource := Some (if e_source m \<noteq> [] then e_source m else ''IP List'')\<rparr>;
                    b = (if e_rating m = ''good'' then b\<lparr>isGoodBot := Some True\<rparr> else b)
                in if e_rating m = ''bad'' then b\<lparr>isGoodBot := Some False\<rparr> else b)
             else result);
          r2 =
            (if e_type m = ''datacenter'' \<or> truthy (e_datacenter m)
             then r1\<lparr>isDatacenter := True,
                     datacenterName := orElse (e_datacenter m) (Some (e_name m))\<rparr>
             else r1)
      in r2\<lparr>botName := scrub (botName r2), datacenterName := scrub (datacenterName r2)\<rparr>)"

definition isAlnum :: "char \<Rightarrow> bool" where
  "isAlnum c =
     (let n = (of_char c :: nat)
      in (48 \<le> n \<and> n \<le> 57) \<or> (65 \<le> n \<and> n \<le> 90) \<or> (97 \<le> n \<and> n \<le> 122))"

text \<open>The label overrides applied to the matched part of the user agent.\<close>

definition normalizeLabel :: "string \<Rightarrow> string \<Rightarrow> string" where
  "normalizeLabel userAgent m0 =
     (let m = trim m0;
          m = (if includesStr userAgent ''LinkCheck by Siteimprove.com''
               then ''LinkCheck by Siteimprove.com'' else m);
          m = (if includesStr userAgent ''Sogou web spider'' then ''Sogou web spider'' else m);
          m = (if includesStr userAgent ''Archive-It'' then ''Archive-It'' else m);
          m = (if startsWith m ''PTST'' then ''PTST'' else m)
      in if m = ''Url'' \<and> includesStr userAgent ''LarkUrl'' then ''LarkUrl'' else m)"

text \<open>The first half of \<open>checkBot\<close>, \<open>if (ip) { ... }\<close>: the result after the address lookup.\<close>

definition ipPhase :: "botData \<Rightarrow> string option \<Rightarrow> analysis" where
  "ipPhase bd ip =
     (case ip of
        None \<Rightarrow> initResult
      | Some a \<Rightarrow>
          if a = [] then initResult
          else (case ipMatch bd a of
                  None \<Rightarrow> initResult
                | Some m \<Rightarrow> applyIpMatch m initResult))"

text \<open>
  \<open>checkBot\<close>. The two functions of the library \<open>isbot\<close> are parameters: \<open>isbot\<close> says
  whether a user agent matches a bot signature, \<open>isbotMatch\<close> gives the matched part
  (or \<open>null\<close>).
\<close>

definition checkBot ::
  "(string \<Rightarrow> bool) \<Rightarrow> (string \<Rightarrow> string option) \<Rightarrow> botData \<Rightarrow> string option \<Rightarrow> string option \<Rightarrow> analysis" where
  "checkBot isbot isbotMatch bd ip userAgent =
     (let result = ipPhase bd ip
      in case userAgent of
           None \<Rightarrow> result
         | Some ua \<Rightarrow>
             if \<not> isBot result \<and> ua \<noteq> [] \<and> isbot ua then
               (let r = result\<lparr>isBot := True\<rparr>;
                    r = (case isbotMatch ua of
                           None \<Rightarrow> r
                         | Some m \<Rightarrow>
                             if m \<noteq> [] \<and> 2 \<le> length (filter isAlnum m)
                             then (let m' = normalizeLabel ua m
                                   in r\<lparr>botName := (if m' = ''GoodBot'' then None else Some m')\<rparr>)
                             else r)
                in r\<lparr>botType := Some ''Crawler'', botSource := Some ''isbot (User Agent)'',
                      isGoodBot := Some True\<rparr>)
             else result)"

section \<open>One record of a page (index.js, the loop body of processPersons)\<close>

text \<open>
  A row of the query: the identifiers, the address and user agent of the latest event,
  and the stored person properties, which are JSON values. The counters of \<open>stats\<close> and
  the console output are left out: they do not influence the patch or the event.
\<close>

record row =
  personId :: string
  distinctId :: string
  isBotProp :: jsval
  processedIp :: "string option"
  userAgent :: "string option"
  existingInitialIp :: jsval
  existingLatestIp :: jsval
  existingIsGoodBot :: jsval
  existingDatacenter :: jsval
  existingLatestNonProxyIp :: jsval

definition jsTruthy :: "jsval \<Rightarrow> bool" where
  "jsTruthy v = (case v of JNull \<Rightarrow> False | JBool b \<Rightarrow> b | JNum n \<Rightarrow> n \<noteq> 0 | JStr s \<Rightarrow> s \<noteq> [])"

definition strVal :: "string option \<Rightarrow> jsval" where
  "strVal v = (case v of None \<Rightarrow> JNull | Some s \<Rightarrow> JStr s)"

text \<open>\<open>v || null\<close>.\<close>

definition orNull :: "string option \<Rightarrow> jsval" where
  "orNull v = (case v of None \<Rightarrow> JNull | Some s \<Rightarrow> if s = [] then JNull else JStr s)"

text \<open>
  The address handed to \<open>checkBot\<close> for the fallback is the stored initial address. A
  stored value that is not a string finds nothing in the map (its keys are strings) and
  \<open>ipToLong\<close> gives 0 for it, so it classifies like an absent address.
\<close>

definition asAddress :: "jsval \<Rightarrow> string option" where
  "asAddress v = (case v of JStr s \<Rightarrow> Some s | _ \<Rightarrow> None)"

definition classify ::
  "(string \<Rightarrow> bool) \<Rightarrow> (string \<Rightarrow> string option) \<Rightarrow> botData \<Rightarrow> row \<Rightarrow> analysis" where
  "classify isbot isbotMatch bd r =
     (let analysis = checkBot isbot isbotMatch bd (processedIp r) (userAgent r)
      in if \<not> isBot analysis \<and> jsTruthy (existingInitialIp r)
            \<and> existingInitialIp r \<noteq> strVal (processedIp r)
         then
           (let initialAnalysis =
                  checkBot isbot isbotMatch bd (asAddress (existingInitialIp r)) (userAgent r);
                analysis = (if isBot initialAnalysis then initialAnalysis else analysis)
            in if isDatacenter initialAnalysis \<and> \<not> isDatacenter analysis
               then analysis\<lparr>isDatacenter := True, datacenterName := datacenterName initialAnalysis\<rparr>
               else analysis)
         else analysis)"

definition isBotAlready :: "row \<Rightarrow> bool" where
  "isBotAlready r =
     (isBotProp r = JBool True \<or> isBotProp r = JNum 1 \<or> isBotProp r = JStr ''true''
      \<or> isBotProp r = JStr ''1'')"

definition isGoodAlready :: "row \<Rightarrow> bool" where
  "isGoodAlready r =
     (existingIsGoodBot r = JBool True \<or> existingIsGoodBot r = JNum 1
      \<or> existingIsGoodBot r = JStr ''true'' \<or> existingIsGoodBot r = JStr ''1'')"

text \<open>The object \<open>props\<close>, as the list of its entries in insertion order.\<close>

definition props :: "analysis \<Rightarrow> row \<Rightarrow> (string \<times> jsval) list" where
  "props a r =
     [(''is_bot'', JBool (isBot a)),
      (''is_good_bot'', if isBot a then JBool (isGoodBot a = Some True) else JNull),
      (''bot_name'', orNull (botName a)),
      (''bot_type'', orNull (botType a)),
      (''bot_identification_source'', orNull (botSource a)),
      (''datacenter'', orNull (datacenterName a))]
     @ (if truthy (processedIp r) \<and> strVal (processedIp r) \<noteq> existingLatestIp r
        then (if \<not> jsTruthy (existingInitialIp r) then [(''$initial_ip'', strVal (processedIp r))] else [])
             @ [(''$latest_ip'', strVal (processedIp r))]
        else [])
     @ (if \<not> isBot a \<and> \<not> isDatacenter a \<and> truthy (processedIp r)
        then (if jsTruthy (existingLatestNonProxyIp r)
                 \<and> existingLatestNonProxyIp r = strVal (processedIp r)
              then [] else [(''$latest_nonproxy_ip'', strVal (processedIp r))])
        else [])"

text \<open>The test of the filter that builds \<open>filteredProps\<close>.\<close>

definition keepProp :: "row \<Rightarrow> string \<times> jsval \<Rightarrow> bool" where
  "keepProp r kv =
     (case kv of (k, v) \<Rightarrow>
        if k = ''is_bot'' \<and> v = JBool (isBotAlready r) then False
        else if k = ''is_good_bot'' \<and> v = JBool (isGoodAlready r) then False
        else if k = ''datacenter'' \<and> v = existingDatacenter r then False
        else if k = ''$latest_ip'' \<and> v = existingLatestIp r then False
        else if k = ''$initial_ip'' \<and> v = existingInitialIp r then False
        else if k = ''$latest_nonproxy_ip'' \<and> v = existingLatestNonProxyIp r then False
        else v \<noteq> JNull)"

definition filteredProps :: "analysis \<Rightarrow> row \<Rightarrow> (string \<times> jsval) list" where
  "filteredProps a r = filter (keepProp r) (props a r)"

record event =
  ev_event :: string
  ev_set :: "(string \<times> jsval) list"
  ev_distinct_id :: string
  ev_anon_distinct_id :: "string option"

definition effectiveDistinctId :: "analysis \<Rightarrow> row \<Rightarrow> string" where
  "effectiveDistinctId a r =
     (if isBot a then
        (if isGoodBot a = Some True \<and> truthy (botName a)
         then (case botName a of None \<Rightarrow> distinctId r | Some n \<Rightarrow> n)
         else if isGoodBot a = Some False
         then orDefault (botName a) ''Unknown Bad Bot'' @ '' ('' @ orDefault (processedIp r) ''No IP'' @ '')''
         else distinctId r)
      else distinctId r)"

text \<open>The patch and the event pushed to the batch, if any.\<close>

definition plan :: "analysis \<Rightarrow> row \<Rightarrow> (string \<times> jsval) list \<times> event option" where
  "plan a r =
     (let patch = filteredProps a r;
          eff = effectiveDistinctId a r;
          eventName = (if isBot a \<and> eff \<noteq> distinctId r then ''$identify'' else ''$set'');
          hasUpdates = (patch \<noteq> []);
          isIdentify = (eventName = ''$identify'')
      in (patch,
          if hasUpdates \<or> isIdentify
          then Some \<lparr>ev_event = eventName, ev_set = patch, ev_distinct_id = eff,
                      ev_anon_distinct_id = (if isIdentify then Some (distinctId r) else None)\<rparr>
          else None))"

definition processRow ::
  "(string \<Rightarrow> bool) \<Rightarrow> (string \<Rightarrow> string option) \<Rightarrow> botData \<Rightarrow> row \<Rightarrow> (string \<times> jsval) list \<times> event option" where
  "processRow isbot isbotMatch bd r = plan (classify isbot isbotMatch bd r) r"

text \<open>
  The stored state after an update: the analytics platform sets every property of the
  patch on the person, and the next run's query reads the six properties below back.
\<close>

definition stored :: "(string \<times> jsval) list \<Rightarrow> string \<Rightarrow> jsval \<Rightarrow> jsval" where
  "stored patch k old = (case map_of patch k of None \<Rightarrow> old | Some v \<Rightarrow> v)"

definition applyPatch :: "(string \<times> jsval) list \<Rightarrow> row \<Rightarrow> row" where
  "applyPatch patch r =
     r\<lparr>isBotProp := stored patch ''is_bot'' (isBotProp r),
       existingInitialIp := stored patch ''$initial_ip'' (existingInitialIp r),
       existingLatestIp := stored patch ''$latest_ip'' (existingLatestIp r),
       existingIsGoodBot := stored patch ''is_good_bot'' (existingIsGoodBot r),
       existingDatacenter := stored patch ''datacenter'' (existingDatacenter r),
       existingLatestNonProxyIp := stored patch ''$latest_nonproxy_ip'' (existingLatestNonProxyIp r)\<rparr>"

section \<open>The retry wrapper (index.js, fetchWithRetry)\<close>

text \<open>
  A call of the thunk \<open>fn\<close> resolves with a value or rejects with an error, which has a
  response (a status and, possibly, a \<open>retry-after\<close> header) or none. The thunk is given
  by the outcome of each of its invocations: every rejected invocation that is retried
  increments \<open>retries\<close>, so the invocation made when \<open>retries = k\<close> is the one numbered \<open>k\<close>.
  The state of the loop is \<open>retries\<close>, \<open>backoff\<close> (milliseconds), the waits slept so far
  and the counter \<open>stats.retries\<close>.
\<close>

datatype 'a outcome = Resolved 'a | Rejected "(int \<times> string option) option"

datatype 'a fetched = Returned 'a | Thrown "(int \<times> string option) option" | MaxRetriesExceeded

definition retryAfterMs :: "string option \<Rightarrow> rat option" where
  "retryAfterMs h =
     (case h of
        None \<Rightarrow> Some 0
      | Some s \<Rightarrow> if s = [] then Some 0 else map_option (\<lambda>n. rat_of_int n * 1000) (parseInt s))"

definition waitTime :: "string option \<Rightarrow> rat \<Rightarrow> rat" where
  "waitTime h backoff = (case retryAfterMs h of None \<Rightarrow> backoff | Some ra \<Rightarrow> if ra > 0 then ra else backoff)"

function retryLoop ::
  "(nat \<Rightarrow> 'a outcome) \<Rightarrow> nat \<Rightarrow> rat \<Rightarrow> rat list \<Rightarrow> nat \<Rightarrow> 'a fetched \<times> rat list \<times> nat" where
  "retryLoop fn retries backoff waits statsRetries =
     (if retries < 10 then
        (case fn retries of
           Resolved v \<Rightarrow> (Returned v, waits, statsRetries)
         | Rejected None \<Rightarrow> (Thrown None, waits, statsRetries)
         | Rejected (Some (status, hdr)) \<Rightarrow>
             if status = 429 then
               retryLoop fn (retries + 1) (min (backoff * (3 / 2)) 60000)
                 (waits @ [waitTime hdr backoff]) (statsRetries + 1)
             else if status \<ge> 500 then
               retryLoop fn (retries + 1) (min (backoff * (3 / 2)) 60000)
                 (waits @ [backoff]) (statsRetries + 1)
             else (Thrown (Some (status, hdr)), waits, statsRetries))
      else (MaxRetriesExceeded, waits, statsRetries))"
  by pat_completeness auto
termination
  by (relation "measure (\<lambda>(fn, retries, backoff, waits, statsRetries). 10 - retries)") auto

definition fetchWithRetry :: "(nat \<Rightarrow> 'a outcome) \<Rightarrow> nat \<Rightarrow> 'a fetched \<times> rat list \<times> nat" where
  "fetchWithRetry fn statsRetries = retryLoop fn 0 2000 [] statsRetries"

section \<open>Notions used to state the properties\<close>

text \<open>The errors that are retried: a response with status 429, or 500 and above.\<close>

definition retryable :: "'a outcome \<Rightarrow> bool" where
  "retryable out =
     (case out of Rejected (Some (status, hdr)) \<Rightarrow> status = 429 \<or> status \<ge> 500 | _ \<Rightarrow> False)"

text \<open>
  The bounds \<open>addEntry\<close> computes for a range string, \<open>None\<close> when the string is stored as
  an exact address or dropped; the entry \<open>addEntry\<close> builds from a tuple; and the entry the
  tuples of a feed leave for given bounds: the first tuple with these bounds, merged in
  turn with every later one.
\<close>

definition cidrBounds :: "string \<Rightarrow> (32 word \<times> 32 word) option" where
  "cidrBounds rng =
     (if rng = [] \<or> CHR ''/'' \<notin> set (trim rng) then None
      else (case splitOn CHR ''/'' (trim rng) of
              ip # msk # _ \<Rightarrow>
                (case parseInt10 msk of
                   None \<Rightarrow> None
                 | Some bitmask \<Rightarrow>
                     Some (cidrStart (ipToLong ip) bitmask,
                           cidrEnd (cidrStart (ipToLong ip) bitmask) bitmask))
            | _ \<Rightarrow> None))"

definition tupleData :: "feedTuple \<Rightarrow> entry" where
  "tupleData t = (case t of (rng, type, name, category, rating, source) \<Rightarrow>
     newData (trim rng) type name category rating source)"

definition mergedEntry :: "feedTuple list \<Rightarrow> 32 word \<times> 32 word \<Rightarrow> entry option" where
  "mergedEntry feed b =
     foldl (\<lambda>acc t. if cidrBounds (fst t) = Some b then Some (merge acc (tupleData t)) else acc) None feed"

definition rangeBounds :: "rangeRec \<Rightarrow> 32 word \<times> 32 word" where
  "rangeBounds r = (r_start r, r_end r)"

text \<open>The data of the first range with the given bounds, as \<open>findIndex\<close> finds it.\<close>

definition rangeData :: "rangeRec list \<Rightarrow> 32 word \<times> 32 word \<Rightarrow> entry option" where
  "rangeData rs b = map_of (map (\<lambda>r. (rangeBounds r, r_data r)) rs) b"

text \<open>
  A list of ranges stands apart from the bounds \<open>(s, e)\<close> when each of its ranges has
  these bounds, or starts and ends below \<open>s\<close>, or starts above \<open>e\<close>.
\<close>

definition apart :: "rangeRec list \<Rightarrow> 32 word \<times> 32 word \<Rightarrow> bool" where
  "apart rs b =
     list_all (\<lambda>r. rangeBounds r = b \<or> (r_start r < fst b \<and> r_end r < fst b) \<or> snd b < r_start r) rs"

text \<open>
  The row a later run reads when the patch of this run has been stored, and the three
  properties that are never compared with the stored state.
\<close>

definition secondRow :: "analysis \<Rightarrow> row \<Rightarrow> row" where
  "secondRow a r = applyPatch (filteredProps a r) r"

definition botKey :: "string \<Rightarrow> bool" where
  "botKey k = (k = ''bot_name'' \<or> k = ''bot_type'' \<or> k = ''bot_identification_source'')"

text \<open>Example feeds, user-agent matchers and rows.\<close>

definition exDatacenter :: feedTuple where
  "exDatacenter =
     (''10.0.0.0/8'', ''datacenter'', Some ''Amazon AWS'', Some ''Datacenter'', Some ''neutral'',
      ''Hexydec-Datacenters'')"

definition exBot :: feedTuple where
  "exBot =
     (''10.0.0.0/8'', ''bot'', Some ''Googlebot'', Some ''Search Engine'', Some ''good'',
      ''Official-Source'')"

definition exOverlap :: "feedTuple list" where
  "exOverlap =
     [exDatacenter,
      (''10.1.0.0/16'', ''bot'', Some ''Googlebot'', Some ''Search Engine'', Some ''good'', ''Official-Source''),
      (''10.2.0.0/16'', ''bot'', Some ''Bingbot'', Some ''Search Engine'', Some ''good'', ''Official-Source'')]"

definition exMixed :: "feedTuple list" where
  "exMixed =
     [(''2a00:1450::/29'', ''datacenter'', Some ''Lab'', Some ''Datacenter'', Some ''neutral'', ''Hexydec-Datacenters''),
      (''2001:db8::/32'', ''datacenter'', Some ''Lab'', Some ''Datacenter'', Some ''neutral'', ''Hexydec-Datacenters''),
      (''192.168.1.0/24'', ''datacenter'', Some ''Lab'', Some ''Datacenter'', Some ''neutral'', ''Hexydec-Datacenters''),
      (''192.168.1.7/32'', ''bot'', Some ''Resolver'', Some ''Crawler'', Some ''good'', ''GoodBots''),
      exBot]"

definition exWhole :: "feedTuple list" where
  "exWhole = [(''0.0.0.0/0'', ''bot'', Some ''Firehol Blocklist'', Some ''Malicious'', Some ''bad'', ''Firehol'')]"

definition exUnmasked :: "feedTuple list" where
  "exUnmasked = [(''10.1.2.3/0'', ''bot'', Some ''Firehol Blocklist'', Some ''Malicious'', Some ''bad'', ''Firehol'')]"

definition exZero :: "feedTuple list" where
  "exZero = [(''0.0.0.0/8'', ''bot'', Some ''Firehol Blocklist'', Some ''Malicious'', Some ''bad'', ''Firehol'')]"

definition exExact :: "feedTuple list" where
  "exExact =
     [(''1.1.1.1'', ''datacenter'', Some ''Amazon AWS'', Some ''Datacenter'', Some ''neutral'', ''Hexydec-Datacenters''),
      (''2.2.2.2'', ''bot'', Some ''Firehol Blocklist'', Some ''Malicious'', Some ''bad'', ''Firehol''),
      (''66.249.66.1'', ''bot'', None, Some ''Crawler'', Some ''good'', ''PostHog-Bot-List''),
      (''1.2.3.4'', ''bot'', Some ''EvilBot'', None, Some ''bad'', ''SomeList''),
      (''5.6.7.8'', ''bot'', None, None, Some ''good'', ''SomeList'')]"

definition noBotUA :: "string \<Rightarrow> bool" where
  "noBotUA ua = False"

definition noLabel :: "string \<Rightarrow> string option" where
  "noLabel ua = None"

definition anyBotUA :: "string \<Rightarrow> bool" where
  "anyBotUA ua = True"

definition exRow :: "string option \<Rightarrow> jsval \<Rightarrow> jsval \<Rightarrow> row" where
  "exRow ip initial latest =
     \<lparr>personId = ''0190a1'', distinctId = ''abc-123'', isBotProp = JNull, processedIp = ip,
      userAgent = None, existingInitialIp = initial, existingLatestIp = latest,
      existingIsGoodBot = JNull, existingDatacenter = JNull, existingLatestNonProxyIp = JNull\<rparr>"

declare findLoop.simps [simp del] retryLoop.simps [simp del] bitLength.simps [simp del]

section \<open>Properties\<close>

subsection \<open>The retry wrapper\<close>

lemma retryLoop_counts:
  "retries \<le> 10 \<Longrightarrow> retryLoop fn retries backoff waits st = (res, ws, st') \<Longrightarrow>
     st \<le> st' \<and> st' + retries \<le> st + 10 \<and> length ws = length waits + (st' - st)"
proof (induction fn retries backoff waits st rule: retryLoop.induct)
  case (1 fn retries backoff waits st)
  show ?case
  proof (cases "retries < 10")
    case False
    with "1.prems" show ?thesis by (simp add: retryLoop.simps)
  next
    case lt: True
    show ?thesis
    proof (cases "fn retries")
      case (Resolved v)
      with lt "1.prems" show ?thesis by (simp add: retryLoop.simps)
    next
      case (Rejected e)
      show ?thesis
      proof (cases e)
        case None
        with Rejected lt "1.prems" show ?thesis by (simp add: retryLoop.simps)
      next
        case (Some p)
        obtain status hdr where p: "p = (status, hdr)" by (cases p)
        consider (a) "status = 429" | (b) "status \<noteq> 429" "status \<ge> 500" | (c) "status \<noteq> 429" "\<not> status \<ge> 500"
          by blast
        then show ?thesis
        proof cases
          case a
          have "retryLoop fn (retries + 1) (min (backoff * (3 / 2)) 60000) (waits @ [waitTime hdr backoff]) (st + 1) = (res, ws, st')"
            using "1.prems"(2) lt Rejected Some p a by (subst (asm) retryLoop.simps) simp
          from "1.IH"(1)[OF lt Rejected Some p[symmetric] a _ this] lt
          show ?thesis by auto
        next
          case b
          have "retryLoop fn (retries + 1) (min (backoff * (3 / 2)) 60000) (waits @ [backoff]) (st + 1) = (res, ws, st')"
            using "1.prems"(2) lt Rejected Some p b by (subst (asm) retryLoop.simps) simp
          from "1.IH"(2)[OF lt Rejected Some p[symmetric] b _ this] lt
          show ?thesis by auto
        next
          case c
          with Rejected Some p lt "1.prems" show ?thesis by (simp add: retryLoop.simps)
        qed
      qed
    qed
  qed
qed

lemma retryLoop_exhaust:
  "retries \<le> 10 \<Longrightarrow> (\<And>k. retries \<le> k \<Longrightarrow> k < 10 \<Longrightarrow> retryable (fn k)) \<Longrightarrow>
     \<exists>ws. retryLoop fn retries backoff waits st = (MaxRetriesExceeded, ws, st + (10 - retries))"
proof (induction fn retries backoff waits st rule: retryLoop.induct)
  case (1 fn retries backoff waits st)
  show ?case
  proof (cases "retries < 10")
    case False
    with "1.prems" show ?thesis by (simp add: retryLoop.simps)
  next
    case lt: True
    from "1.prems"(2)[of retries] lt have r: "retryable (fn retries)" by simp
    then obtain status hdr where f: "fn retries = Rejected (Some (status, hdr))"
      and s: "status = 429 \<or> status \<ge> 500"
      by (auto simp: retryable_def split: outcome.splits option.splits)
    have later: "\<And>k. retries + 1 \<le> k \<Longrightarrow> k < 10 \<Longrightarrow> retryable (fn k)"
      using "1.prems"(2) by simp
    show ?thesis
    proof (cases "status = 429")
      case True
      from "1.IH"(1)[OF lt f refl refl True _ later] lt
      obtain ws where "retryLoop fn (retries + 1) (min (backoff * (3 / 2)) 60000)
          (waits @ [waitTime hdr backoff]) (st + 1) = (MaxRetriesExceeded, ws, st + 1 + (10 - (retries + 1)))"
        by auto
      with lt f True show ?thesis by (subst retryLoop.simps) simp
    next
      case False
      with s have ge: "status \<ge> 500" by simp
      from "1.IH"(2)[OF lt f refl refl False ge _ later] lt
      obtain ws where "retryLoop fn (retries + 1) (min (backoff * (3 / 2)) 60000)
          (waits @ [backoff]) (st + 1) = (MaxRetriesExceeded, ws, st + 1 + (10 - (retries + 1)))"
        by auto
      with lt f False ge show ?thesis by (subst retryLoop.simps) simp
    qed
  qed
qed

lemma retryLoop_resolved:
  "retries < 10 \<Longrightarrow> fn retries = Resolved v \<Longrightarrow>
     retryLoop fn retries backoff waits st = (Returned v, waits, st)"
  by (subst retryLoop.simps) simp

lemma retryLoop_unhinted_429:
  "retries < 10 \<Longrightarrow> fn retries = Rejected (Some (429, None)) \<Longrightarrow>
     retryLoop fn retries backoff waits st =
       retryLoop fn (retries + 1) (min (backoff * (3 / 2)) 60000) (waits @ [backoff]) (st + 1)"
  by (subst retryLoop.simps) (simp add: waitTime_def retryAfterMs_def)

lemma retryLoop_not_retried:
  "retries < 10 \<Longrightarrow> fn retries = Rejected (Some (status, hdr)) \<Longrightarrow> status \<noteq> 429 \<Longrightarrow>
     status < 500 \<Longrightarrow> retryLoop fn retries backoff waits st = (Thrown (Some (status, hdr)), waits, st)"
  by (subst retryLoop.simps) simp

lemma retryLoop_agree:
  assumes "\<And>k. retries \<le> k \<Longrightarrow> k < 10 \<Longrightarrow> fn k = fn' k"
  shows "retryLoop fn retries backoff waits st = retryLoop fn' retries backoff waits st"
  using assms
proof (induction "10 - retries" arbitrary: retries backoff waits st rule: less_induct)
  case less
  show ?case
  proof (cases "retries < 10")
    case False
    then show ?thesis by (simp add: retryLoop.simps)
  next
    case True
    then have same: "fn retries = fn' retries" by (simp add: less.prems)
    have step: "retryLoop fn (Suc retries) b ws s = retryLoop fn' (Suc retries) b ws s" for b ws s
      by (rule less.hyps) (use True less.prems in auto)
    show ?thesis
      by (subst (1 2) retryLoop.simps) (simp add: same step split: outcome.splits option.splits)
  qed
qed

text \<open>
  Claim C5. A call that is rejected three times with status 429 and no \<open>retry-after\<close>
  header, and then resolves, returns the resolved value after exactly three waits, of
  2000, 3000 and 4500 milliseconds, and \<open>stats.retries\<close> has grown by exactly 3.
\<close>

theorem retry_429_three_times:
  assumes "fn 0 = Rejected (Some (429, None))" and "fn 1 = Rejected (Some (429, None))"
    and "fn 2 = Rejected (Some (429, None))" and "fn 3 = Resolved v"
  shows "fetchWithRetry fn n = (Returned v, [2000, 3000, 4500], n + 3)"
proof -
  have "retryLoop fn 0 2000 [] n = retryLoop fn 1 3000 [2000] (n + 1)"
    using retryLoop_unhinted_429 [of 0 fn 2000 "[]" n] assms(1) by simp
  also have "\<dots> = retryLoop fn 2 4500 [2000, 3000] (n + 2)"
    using retryLoop_unhinted_429 [of 1 fn 3000 "[2000]" "n + 1"] assms(2)
    by (simp add: numeral_2_eq_2)
  also have "\<dots> = retryLoop fn 3 6750 [2000, 3000, 4500] (n + 3)"
    using retryLoop_unhinted_429 [of 2 fn 4500 "[2000, 3000]" "n + 2"] assms(3)
    by (simp add: numeral_3_eq_3)
  also have "\<dots> = (Returned v, [2000, 3000, 4500], n + 3)"
    using retryLoop_resolved [of 3 fn v] assms(4) by simp
  finally show ?thesis by (simp add: fetchWithRetry_def)
qed

theorem retry_429_three_times_witness:
  "fetchWithRetry (\<lambda>k. if k < 3 then Rejected (Some (429, None)) else Resolved ''page'') 7
     = (Returned ''page'', [2000, 3000, 4500], 10)"
  using retry_429_three_times [of "\<lambda>k. if k < 3 then Rejected (Some (429, None)) else Resolved ''page''" "''page''" 7]
  by simp


text \<open>
  A run of retried failures is passed over: when the calls numbered \<open>retries\<close> up to
  \<open>k - 1\<close> fail with a retried error, the loop reaches call \<open>k\<close> with \<open>k - retries\<close> more
  waits and counted retries.
\<close>

lemma retryLoop_skip:
  assumes "retries \<le> k" and "k \<le> 10" and "\<And>i. retries \<le> i \<Longrightarrow> i < k \<Longrightarrow> retryable (fn i)"
  shows "\<exists>b ws. length ws = k - retries
           \<and> retryLoop fn retries backoff waits st = retryLoop fn k b (waits @ ws) (st + (k - retries))"
  using assms
proof (induction "k - retries" arbitrary: retries backoff waits st)
  case 0
  then have "k = retries" by simp
  then show ?case by (intro exI [of _ backoff] exI [of _ "[]"]) simp
next
  case (Suc d)
  from Suc.hyps(2) Suc.prems have lt: "retries < 10" "retries < k" by simp_all
  from Suc.prems(3) [of retries] lt have "retryable (fn retries)" by simp
  then obtain status hdr where f: "fn retries = Rejected (Some (status, hdr))"
    and s: "status = 429 \<or> status \<ge> 500"
    by (auto simp: retryable_def split: outcome.splits option.splits)
  define w where "w = (if status = 429 then waitTime hdr backoff else backoff)"
  have step: "retryLoop fn retries backoff waits st =
      retryLoop fn (Suc retries) (min (backoff * (3 / 2)) 60000) (waits @ [w]) (Suc st)"
    using lt(1) f s by (subst retryLoop.simps) (auto simp: w_def)
  have "d = k - Suc retries" using Suc.hyps(2) by simp
  from Suc.hyps(1) [OF this, of "min (backoff * (3 / 2)) 60000" "waits @ [w]" "Suc st"] lt(2) Suc.prems
  obtain b ws where r: "length ws = k - Suc retries"
    "retryLoop fn (Suc retries) (min (backoff * (3 / 2)) 60000) (waits @ [w]) (Suc st)
       = retryLoop fn k b ((waits @ [w]) @ ws) (Suc st + (k - Suc retries))"
    by auto
  from r(1) lt(2) have "length (w # ws) = k - retries" by simp
  moreover have "Suc st + (k - Suc retries) = st + (k - retries)" using lt(2) by simp
  with step r(2)
  have "retryLoop fn retries backoff waits st = retryLoop fn k b (waits @ (w # ws)) (st + (k - retries))"
    by (simp only: append_assoc append_Cons append_Nil)
  ultimately show ?case by blast
qed

lemma retryLoop_not_retryable:
  assumes "retries < 10" and "fn retries = Rejected e" and "\<not> retryable (fn retries)"
  shows "retryLoop fn retries backoff waits st = (Thrown e, waits, st)"
proof (cases e)
  case None
  with assms show ?thesis by (subst retryLoop.simps) simp
next
  case (Some p)
  obtain status hdr where p: "p = (status, hdr)" by (cases p)
  from assms(2,3) Some p have "status \<noteq> 429" "\<not> status \<ge> 500" by (simp_all add: retryable_def)
  with assms(1,2) Some p show ?thesis by (subst retryLoop.simps) simp
qed

text \<open>
  Claim C6. However the calls turn out, at most 10 retries are counted, with one wait
  per counted retry, and the thunk is called at most ten times: the result depends on
  the outcomes of its first ten calls only. When these ten calls all fail with a retried
  error (429, or 500 and above), the wrapper gives up with its own error after exactly
  10 counted retries. When fewer than ten calls fail with a retried error and the next
  call fails with another error (a status below 500 other than 429, or no response),
  that error is thrown at once: nothing is waited or counted for it, and the waits and
  counted retries are those of the retried failures before it; when the next call
  resolves, its value is returned in the same way. In particular an error of this kind
  at the first call is thrown with no wait and no retry counted.
\<close>

theorem retry_budget:
  "snd (snd (fetchWithRetry fn st)) \<le> st + 10
   \<and> length (fst (snd (fetchWithRetry fn st))) = snd (snd (fetchWithRetry fn st)) - st
   \<and> (list_all (\<lambda>k. fn k = fn' k) [0..<10] \<longrightarrow> fetchWithRetry fn st = fetchWithRetry fn' st)
   \<and> (list_all retryable (map fn [0..<10]) \<longrightarrow>
        fst (fetchWithRetry fn st) = MaxRetriesExceeded \<and> snd (snd (fetchWithRetry fn st)) = st + 10)
   \<and> (k < 10 \<and> list_all retryable (map fn [0..<k]) \<and> fn k = Rejected e \<and> \<not> retryable (fn k) \<longrightarrow>
        fst (fetchWithRetry fn st) = Thrown e \<and> snd (snd (fetchWithRetry fn st)) = st + k
        \<and> length (fst (snd (fetchWithRetry fn st))) = k)
   \<and> (k < 10 \<and> list_all retryable (map fn [0..<k]) \<and> fn k = Resolved v \<longrightarrow>
        fst (fetchWithRetry fn st) = Returned v \<and> snd (snd (fetchWithRetry fn st)) = st + k
        \<and> length (fst (snd (fetchWithRetry fn st))) = k)
   \<and> (fn 0 = Rejected (Some (status, hdr)) \<and> status \<noteq> 429 \<and> status < 500 \<longrightarrow>
        fetchWithRetry fn st = (Thrown (Some (status, hdr)), [], st))"
proof -
  obtain res ws st' where f: "retryLoop fn 0 2000 [] st = (res, ws, st')"
    by (cases "retryLoop fn 0 2000 [] st") auto
  from retryLoop_counts [OF _ f] have c: "st' \<le> st + 10" "length ws = st' - st" by auto
  have a: "fetchWithRetry fn st = fetchWithRetry fn' st"
    if "list_all (\<lambda>k. fn k = fn' k) [0..<10]"
    unfolding fetchWithRetry_def by (rule retryLoop_agree) (use that in \<open>simp add: list_all_iff\<close>)
  have e: "fst (fetchWithRetry fn st) = MaxRetriesExceeded \<and> snd (snd (fetchWithRetry fn st)) = st + 10"
    if "list_all retryable (map fn [0..<10])"
  proof -
    from that have "\<And>k. 0 \<le> k \<Longrightarrow> k < 10 \<Longrightarrow> retryable (fn k)"
      by (simp add: list_all_iff)
    from retryLoop_exhaust [where retries = 0 and fn = fn and backoff = 2000 and waits = "[]" and st = st] this
    show ?thesis
      by (auto simp: fetchWithRetry_def)
  qed
  have reach: "\<exists>b ws. length ws = k \<and> fetchWithRetry fn st = retryLoop fn k b ws (st + k)"
    if "k < 10" "list_all retryable (map fn [0..<k])"
  proof -
    from that(2) have "\<And>i. 0 \<le> i \<Longrightarrow> i < k \<Longrightarrow> retryable (fn i)" by (simp add: list_all_iff)
    from retryLoop_skip [of 0 k fn 2000 "[]" st, OF _ _ this] that(1)
    show ?thesis by (auto simp: fetchWithRetry_def)
  qed
  have n: "fst (fetchWithRetry fn st) = Thrown e \<and> snd (snd (fetchWithRetry fn st)) = st + k
           \<and> length (fst (snd (fetchWithRetry fn st))) = k"
    if h: "k < 10 \<and> list_all retryable (map fn [0..<k]) \<and> fn k = Rejected e \<and> \<not> retryable (fn k)"
  proof -
    from h reach obtain b ws where r: "length ws = k" "fetchWithRetry fn st = retryLoop fn k b ws (st + k)"
      by blast
    from h have h1: "k < 10" and h2: "fn k = Rejected e" and h3: "\<not> retryable (fn k)" by blast+
    have "retryLoop fn k b ws (st + k) = (Thrown e, ws, st + k)"
      using h1 h2 h3 by (rule retryLoop_not_retryable)
    with r show ?thesis by simp
  qed
  have v: "fst (fetchWithRetry fn st) = Returned v \<and> snd (snd (fetchWithRetry fn st)) = st + k
           \<and> length (fst (snd (fetchWithRetry fn st))) = k"
    if h: "k < 10 \<and> list_all retryable (map fn [0..<k]) \<and> fn k = Resolved v"
  proof -
    from h reach obtain b ws where r: "length ws = k" "fetchWithRetry fn st = retryLoop fn k b ws (st + k)"
      by blast
    from h have h1: "k < 10" and h2: "fn k = Resolved v" by simp_all
    have "retryLoop fn k b ws (st + k) = (Returned v, ws, st + k)"
      using h1 h2 by (rule retryLoop_resolved)
    with r show ?thesis by simp
  qed
  have t: "fetchWithRetry fn st = (Thrown (Some (status, hdr)), [], st)"
    if "fn 0 = Rejected (Some (status, hdr)) \<and> status \<noteq> 429 \<and> status < 500"
    using that retryLoop_not_retried [of 0 fn status hdr 2000 "[]" st]
    by (simp add: fetchWithRetry_def)
  have "snd (snd (fetchWithRetry fn st)) \<le> st + 10
        \<and> length (fst (snd (fetchWithRetry fn st))) = snd (snd (fetchWithRetry fn st)) - st"
    using c f by (simp add: fetchWithRetry_def)
  with a e n v t show ?thesis by blast
qed

theorem retry_budget_witness:
  "fst (fetchWithRetry (\<lambda>k. Rejected (Some (503, None)) :: unit outcome) 0) = MaxRetriesExceeded
   \<and> snd (snd (fetchWithRetry (\<lambda>k. Rejected (Some (503, None)) :: unit outcome) 0)) = 10
   \<and> length (fst (snd (fetchWithRetry (\<lambda>k. Rejected (Some (503, None)) :: unit outcome) 0))) = 10
   \<and> fetchWithRetry (\<lambda>k. Rejected (Some (503, None)) :: unit outcome) 0
       = fetchWithRetry (\<lambda>k. if k < 10 then Rejected (Some (503, None)) else Resolved ()) 0
   \<and> fetchWithRetry (\<lambda>k. Rejected (Some (404, None)) :: unit outcome) 4 = (Thrown (Some (404, None)), [], 4)
   \<and> fst (fetchWithRetry (\<lambda>k. if k < 1 then Rejected (Some (503, None)) else Rejected (Some (404, None)) :: unit outcome) 4)
       = Thrown (Some (404, None))
   \<and> snd (snd (fetchWithRetry (\<lambda>k. if k < 1 then Rejected (Some (503, None)) else Rejected (Some (404, None)) :: unit outcome) 4)) = 5
   \<and> length (fst (snd (fetchWithRetry (\<lambda>k. if k < 1 then Rejected (Some (503, None)) else Rejected (Some (404, None)) :: unit outcome) 4))) = 1
   \<and> fst (fetchWithRetry (\<lambda>k. if k < 2 then Rejected (Some (429, Some ''7'')) else Resolved ''page'') 0)
       = Returned ''page''
   \<and> snd (snd (fetchWithRetry (\<lambda>k. if k < 2 then Rejected (Some (429, Some ''7'')) else Resolved ''page'') 0)) = 2"
proof -
  let ?down = "\<lambda>k::nat. Rejected (Some (503, None)) :: unit outcome"
  let ?up = "\<lambda>k::nat. if k < 10 then Rejected (Some (503, None)) else Resolved ()"
  let ?gone = "\<lambda>k::nat. Rejected (Some (404, None)) :: unit outcome"
  let ?late = "\<lambda>k::nat. if k < 1 then Rejected (Some (503, None)) else Rejected (Some (404, None)) :: unit outcome"
  let ?busy = "\<lambda>k::nat. if k < 2 then Rejected (Some (429, Some ''7'')) else Resolved ''page''"
  have r: "list_all retryable (map ?down [0..<10])"
    by (simp add: list_all_iff retryable_def)
  have s: "list_all (\<lambda>k. ?down k = ?up k) [0..<10]"
    by (simp add: list_all_iff)
  have l: "(1::nat) < 10 \<and> list_all retryable (map ?late [0..<1]) \<and> ?late 1 = Rejected (Some (404, None))
           \<and> \<not> retryable (?late 1)"
    by (simp add: retryable_def)
  have b: "(2::nat) < 10 \<and> list_all retryable (map ?busy [0..<2]) \<and> ?busy 2 = Resolved ''page''"
    by (simp add: list_all_iff retryable_def)
  note down = retry_budget [of ?down 0 ?up 0 None "()" 503 None]
  note gone = retry_budget [of ?gone 4 ?gone 0 None "()" 404 None]
  note late = retry_budget [of ?late 4 ?late 1 "Some (404, None)" "()" 404 None]
  note busy = retry_budget [of ?busy 0 ?busy 2 None "''page''" 404 None]
  from down r have 1: "fst (fetchWithRetry ?down 0) = MaxRetriesExceeded"
    and 2: "snd (snd (fetchWithRetry ?down 0)) = 10"
    by simp_all
  from down 2 have 3: "length (fst (snd (fetchWithRetry ?down 0))) = 10" by simp
  from down s have 4: "fetchWithRetry ?down 0 = fetchWithRetry ?up 0" by blast
  from gone have 5: "fetchWithRetry ?gone 4 = (Thrown (Some (404, None)), [], 4)" by simp
  from late l have "fst (fetchWithRetry ?late 4) = Thrown (Some (404, None))
      \<and> snd (snd (fetchWithRetry ?late 4)) = 4 + 1
      \<and> length (fst (snd (fetchWithRetry ?late 4))) = 1"
    by blast
  then have 6: "fst (fetchWithRetry ?late 4) = Thrown (Some (404, None))"
    and 7: "snd (snd (fetchWithRetry ?late 4)) = 5"
    and 8: "length (fst (snd (fetchWithRetry ?late 4))) = 1"
    by simp_all
  from busy b have "fst (fetchWithRetry ?busy 0) = Returned ''page''
      \<and> snd (snd (fetchWithRetry ?busy 0)) = 0 + 2"
    by blast
  then have 9: "fst (fetchWithRetry ?busy 0) = Returned ''page''"
    and 10: "snd (snd (fetchWithRetry ?busy 0)) = 2"
    by simp_all
  from 1 2 3 4 5 6 7 8 9 10 show ?thesis by (intro conjI)
qed

subsection \<open>Ingestion into the range list\<close>

lemma findIndex_Some:
  "findIndex p xs = Some i \<Longrightarrow> i < length xs \<and> p (xs ! i) \<and> (\<forall>j<i. \<not> p (xs ! j))"
proof (induction xs arbitrary: i)
  case Nil
  then show ?case by simp
next
  case (Cons x xs)
  show ?case
  proof (cases "p x")
    case True
    with Cons.prems show ?thesis by simp
  next
    case False
    with Cons.prems obtain i' where i': "findIndex p xs = Some i'" "i = Suc i'"
      by auto
    from Cons.IH [OF i'(1)] False i'(2) show ?thesis
      by (auto simp: nth_Cons split: nat.splits)
  qed
qed

lemma findIndex_None: "findIndex p xs = None \<Longrightarrow> \<forall>x \<in> set xs. \<not> p x"
  by (induction xs) (auto split: if_splits)

lemma splitOn_two: "splitOn d s = a # b # rest \<Longrightarrow> d \<in> set s"
proof (induction s arbitrary: a)
  case Nil
  then show ?case by simp
next
  case (Cons c cs)
  show ?case
  proof (cases "c = d")
    case True
    then show ?thesis by simp
  next
    case False
    with Cons.prems obtain p ps where p: "splitOn d cs = p # ps" "a = c # p" "ps = b # rest"
      by (auto split: list.splits)
    then have "splitOn d cs = p # b # rest" by simp
    from Cons.IH [OF this] show ?thesis by simp
  qed
qed

lemma cidrBounds_parsed:
  assumes "splitOn CHR ''/'' (trim rng) = ip # msk # rest" "parseInt10 msk = Some n"
  shows "cidrBounds rng = Some (cidrStart (ipToLong ip) n, cidrEnd (cidrStart (ipToLong ip) n) n)"
proof -
  from splitOn_two [OF assms(1)] have m: "CHR ''/'' \<in> set (trim rng)" .
  then have "rng \<noteq> []" by (auto simp: trim_def)
  with m assms show ?thesis by (simp add: cidrBounds_def)
qed

lemma sortedRanges_addEntry:
  "sortedRanges (addEntry rng type name category rating source bd) =
     (case cidrBounds rng of
        None \<Rightarrow> sortedRanges bd
      | Some (s, e) \<Rightarrow>
          (case findIndex (\<lambda>r. r_start r = s \<and> r_end r = e) (sortedRanges bd) of
             Some i \<Rightarrow>
               (sortedRanges bd)
                 [i := (sortedRanges bd ! i)
                         \<lparr>r_data := merge (Some (r_data (sortedRanges bd ! i)))
                                      (newData (trim rng) type name category rating source)\<rparr>]
           | None \<Rightarrow>
               sortedRanges bd
               @ [\<lparr>r_start = s, r_end = e,
                    r_data = newData (trim rng) type name category rating source\<rparr>]))"
  by (simp add: addEntry_def cidrBounds_def Let_def split: list.splits option.splits)

lemma singleIPs_addEntry:
  "rng \<noteq> [] \<Longrightarrow> CHR ''/'' \<notin> set (trim rng) \<Longrightarrow>
     singleIPs (addEntry rng type name category rating source bd) =
       (singleIPs bd)(trim rng \<mapsto> merge (singleIPs bd (trim rng)) (newData (trim rng) type name category rating source))"
  by (simp add: addEntry_def Let_def)

lemma rangeData_append:
  "rangeData (rs @ [r]) b = (case rangeData rs b of Some d \<Rightarrow> Some d | None \<Rightarrow> if rangeBounds r = b then Some (r_data r) else None)"
  by (simp add: rangeData_def map_add_def split: option.splits)

lemma rangeData_None_iff: "rangeData rs b = None \<longleftrightarrow> b \<notin> rangeBounds ` set rs"
  by (simp add: rangeData_def map_of_eq_None_iff image_image)

lemma rangeData_update_first:
  assumes "i < length rs" "rangeBounds (rs ! i) = b" "\<forall>j<i. rangeBounds (rs ! j) \<noteq> b"
  shows "rangeData (rs[i := (rs ! i)\<lparr>r_data := d\<rparr>]) b' = (if b' = b then Some d else rangeData rs b')"
  using assms
proof (induction rs arbitrary: i)
  case Nil
  then show ?case by simp
next
  case (Cons r rs)
  show ?case
  proof (cases i)
    case 0
    with Cons.prems show ?thesis by (simp add: rangeData_def rangeBounds_def)
  next
    case (Suc i')
    with Cons.prems have r: "rangeBounds r \<noteq> b" by auto
    from Suc Cons.prems have "i' < length rs" "rangeBounds (rs ! i') = b" "\<forall>j<i'. rangeBounds (rs ! j) \<noteq> b"
      by auto
    from Cons.IH [OF this] Suc r show ?thesis
      by (auto simp: rangeData_def)
  qed
qed

lemma rangeData_first:
  assumes "i < length rs" "rangeBounds (rs ! i) = b" "\<forall>j<i. rangeBounds (rs ! j) \<noteq> b"
  shows "rangeData rs b = Some (r_data (rs ! i))"
  using assms
proof (induction rs arbitrary: i)
  case Nil
  then show ?case by simp
next
  case (Cons r rs)
  show ?case
  proof (cases i)
    case 0
    with Cons.prems show ?thesis by (simp add: rangeData_def)
  next
    case (Suc i')
    with Cons.prems have r: "rangeBounds r \<noteq> b" by auto
    from Suc Cons.prems have "i' < length rs" "rangeBounds (rs ! i') = b" "\<forall>j<i'. rangeBounds (rs ! j) \<noteq> b"
      by auto
    from Cons.IH [OF this] Suc r show ?thesis
      by (simp add: rangeData_def)
  qed
qed

lemma rangeData_addEntry:
  "rangeData (sortedRanges (addEntry rng type name category rating source bd)) b =
     (if cidrBounds rng = Some b
      then Some (merge (rangeData (sortedRanges bd) b) (newData (trim rng) type name category rating source))
      else rangeData (sortedRanges bd) b)"
proof (cases "cidrBounds rng")
  case None
  then show ?thesis by (simp add: sortedRanges_addEntry)
next
  case (Some c)
  obtain s e where c: "c = (s, e)" by (cases c)
  let ?rs = "sortedRanges bd"
  let ?new = "newData (trim rng) type name category rating source"
  show ?thesis
  proof (cases "findIndex (\<lambda>r. r_start r = s \<and> r_end r = e) ?rs")
    case None
    from findIndex_None [OF None] have "(s, e) \<notin> rangeBounds ` set ?rs" by (auto simp: rangeBounds_def)
    then have n: "rangeData ?rs (s, e) = None" by (simp add: rangeData_None_iff)
    have "sortedRanges (addEntry rng type name category rating source bd) =
            ?rs @ [\<lparr>r_start = s, r_end = e, r_data = ?new\<rparr>]"
      using Some c None by (simp add: sortedRanges_addEntry)
    then show ?thesis using Some c n
      by (auto simp: rangeData_append rangeBounds_def merge_def split: option.splits)
  next
    case (Some i)
    from findIndex_Some [OF Some]
    have i: "i < length ?rs" "rangeBounds (?rs ! i) = (s, e)" "\<forall>j<i. rangeBounds (?rs ! j) \<noteq> (s, e)"
      by (auto simp: rangeBounds_def)
    have d: "rangeData ?rs (s, e) = Some (r_data (?rs ! i))" using i by (rule rangeData_first)
    have "sortedRanges (addEntry rng type name category rating source bd) =
            ?rs[i := (?rs ! i)\<lparr>r_data := merge (Some (r_data (?rs ! i))) ?new\<rparr>]"
      using \<open>cidrBounds rng = Some c\<close> c Some by (simp add: sortedRanges_addEntry)
    then show ?thesis using \<open>cidrBounds rng = Some c\<close> c d rangeData_update_first [OF i]
      by auto
  qed
qed

lemma bounds_addEntry:
  "map rangeBounds (sortedRanges (addEntry rng type name category rating source bd)) =
     (case cidrBounds rng of
        None \<Rightarrow> map rangeBounds (sortedRanges bd)
      | Some b \<Rightarrow> if b \<in> rangeBounds ` set (sortedRanges bd) then map rangeBounds (sortedRanges bd)
                  else map rangeBounds (sortedRanges bd) @ [b])"
proof (cases "cidrBounds rng")
  case None
  then show ?thesis by (simp add: sortedRanges_addEntry)
next
  case (Some c)
  obtain s e where c: "c = (s, e)" by (cases c)
  let ?rs = "sortedRanges bd"
  show ?thesis
  proof (cases "findIndex (\<lambda>r. r_start r = s \<and> r_end r = e) ?rs")
    case None
    from findIndex_None [OF None] have "(s, e) \<notin> rangeBounds ` set ?rs" by (auto simp: rangeBounds_def)
    with Some c None show ?thesis by (simp add: sortedRanges_addEntry rangeBounds_def)
  next
    case (Some i)
    from findIndex_Some [OF Some]
    have i: "i < length ?rs" "rangeBounds (?rs ! i) = (s, e)" by (auto simp: rangeBounds_def)
    then have m: "(s, e) \<in> rangeBounds ` set ?rs" by (metis imageI nth_mem)
    have "map rangeBounds (?rs[i := (?rs ! i)\<lparr>r_data := d\<rparr>]) = map rangeBounds ?rs" for d
      using i by (simp add: map_update rangeBounds_def list_update_same_conv)
    with \<open>cidrBounds rng = Some c\<close> c Some m show ?thesis
      by (simp add: sortedRanges_addEntry)
  qed
qed

lemma rangeData_foldl_addTuple:
  "rangeData (sortedRanges (foldl addTuple bd feed)) b =
     foldl (\<lambda>acc t. if cidrBounds (fst t) = Some b then Some (merge acc (tupleData t)) else acc)
       (rangeData (sortedRanges bd) b) feed"
proof (induction feed arbitrary: bd)
  case Nil
  then show ?case by simp
next
  case (Cons t feed)
  obtain rng type name category rating source where t: "t = (rng, type, name, category, rating, source)"
    by (cases t)
  show ?case
    by (simp add: Cons.IH) (simp add: t addTuple_def rangeData_addEntry tupleData_def)
qed

lemma rangeData_ingested: "rangeData (sortedRanges (foldl addTuple emptyData feed)) b = mergedEntry feed b"
proof -
  have "rangeData (sortedRanges emptyData) b = None" by (simp add: emptyData_def rangeData_def)
  then show ?thesis by (simp only: rangeData_foldl_addTuple mergedEntry_def)
qed

lemma distinct_bounds_addEntry:
  "distinct (map rangeBounds (sortedRanges bd)) \<Longrightarrow>
     distinct (map rangeBounds (sortedRanges (addEntry rng type name category rating source bd)))"
  by (simp add: bounds_addEntry split: option.splits)

lemma distinct_bounds_foldl:
  "distinct (map rangeBounds (sortedRanges bd)) \<Longrightarrow> distinct (map rangeBounds (sortedRanges (foldl addTuple bd feed)))"
proof (induction feed arbitrary: bd)
  case Nil
  then show ?case by simp
next
  case (Cons t feed)
  obtain rng type name category rating source where t: "t = (rng, type, name, category, rating, source)"
    by (cases t)
  from Cons.prems have "distinct (map rangeBounds (sortedRanges (addTuple bd t)))"
    by (simp add: t addTuple_def distinct_bounds_addEntry)
  then show ?case by (simp add: Cons.IH)
qed

lemma rangeData_distinct:
  "distinct (map rangeBounds rs) \<Longrightarrow> r \<in> set rs \<Longrightarrow> rangeData rs (rangeBounds r) = Some (r_data r)"
proof -
  assume d: "distinct (map rangeBounds rs)" and r: "r \<in> set rs"
  have "distinct (map fst (map (\<lambda>r. (rangeBounds r, r_data r)) rs))" using d by (simp add: comp_def)
  moreover have "(rangeBounds r, r_data r) \<in> set (map (\<lambda>r. (rangeBounds r, r_data r)) rs)" using r by auto
  ultimately show ?thesis unfolding rangeData_def by (rule map_of_is_SomeI)
qed

lemma sorted_load:
  "sorted (map r_start (sortedRanges (loadAllBotData feed)))"
  by (simp add: loadAllBotData_def sortRanges_def)

lemma set_load:
  "set (sortedRanges (loadAllBotData feed)) = set (sortedRanges (foldl addTuple emptyData feed))"
  by (simp add: loadAllBotData_def sortRanges_def)

lemma load_data:
  assumes "r \<in> set (sortedRanges (loadAllBotData feed))"
  shows "mergedEntry feed (rangeBounds r) = Some (r_data r)"
proof -
  have "distinct (map rangeBounds (sortedRanges (foldl addTuple emptyData feed)))"
    by (rule distinct_bounds_foldl) (simp add: emptyData_def)
  moreover from assms have "r \<in> set (sortedRanges (foldl addTuple emptyData feed))"
    by (simp add: set_load)
  ultimately have "rangeData (sortedRanges (foldl addTuple emptyData feed)) (rangeBounds r) = Some (r_data r)"
    by (rule rangeData_distinct)
  then show ?thesis by (simp add: rangeData_ingested)
qed

lemma load_range_present:
  assumes "mergedEntry feed b \<noteq> None"
  shows "\<exists>r \<in> set (sortedRanges (loadAllBotData feed)). rangeBounds r = b"
proof -
  from assms have "rangeData (sortedRanges (foldl addTuple emptyData feed)) b \<noteq> None"
    by (simp add: rangeData_ingested)
  then have "b \<in> rangeBounds ` set (sortedRanges (foldl addTuple emptyData feed))"
    by (simp add: rangeData_None_iff)
  then show ?thesis by (auto simp: set_load)
qed

lemma mergedEntry_member:
  assumes "t \<in> set feed" "cidrBounds (fst t) = Some b"
  shows "mergedEntry feed b \<noteq> None"
proof -
  have step: "foldl (\<lambda>acc t. if cidrBounds (fst t) = Some b then Some (merge acc (tupleData t)) else acc) acc ts \<noteq> None"
    if "acc \<noteq> None \<or> (\<exists>t \<in> set ts. cidrBounds (fst t) = Some b)" for acc ts
    using that by (induction ts arbitrary: acc) auto
  from assms show ?thesis unfolding mergedEntry_def by (intro step) blast
qed


subsection \<open>The bounds of a CIDR range\<close>

lemma bitLength_le: "n < 2 ^ k \<Longrightarrow> bitLength n \<le> k"
proof (induction k arbitrary: n)
  case 0
  then show ?case by (simp add: bitLength.simps)
next
  case (Suc k)
  show ?case
  proof (cases "n \<le> 0")
    case True
    then show ?thesis by (simp add: bitLength.simps)
  next
    case False
    from Suc.prems have "n div 2 < 2 ^ k" by simp
    from Suc.IH [OF this] False show ?thesis by (subst bitLength.simps) simp
  qed
qed

text \<open>An integer below \<open>2 ^ 53\<close> in magnitude is a double.\<close>

lemma toDouble_small:
  assumes "\<bar>x\<bar> < 2 ^ 53"
  shows "toDouble x = Some x"
proof -
  from assms have l: "bitLength \<bar>x\<bar> \<le> 53" by (rule bitLength_le)
  then have b: "bitLength \<bar>x\<bar> - 53 = 0" by simp
  from l have big: "\<not> 1024 < bitLength \<bar>x\<bar>" by simp
  have "toDouble x = (if 1024 < bitLength \<bar>x\<bar> then None else Some (if x < 0 then - \<bar>x\<bar> else \<bar>x\<bar>))"
    unfolding toDouble_def Let_def b by simp
  also have "\<dots> = Some x" using big by (simp only: if_False) simp
  finally show ?thesis .
qed

text \<open>For a prefix length from 0 to 32 nothing is rounded.\<close>

lemma shiftBy_prefix:
  assumes "0 \<le> n" "n \<le> 32"
  shows "shiftBy n = Some (32 - n)"
proof -
  from assms have "\<bar>n\<bar> < 2 ^ 53" "\<bar>32 - n\<bar> < 2 ^ 53" by simp_all
  then show ?thesis by (simp add: shiftBy_def toDouble_small)
qed

lemma cidrStart_prefix:
  assumes "0 \<le> n" "n \<le> 32"
  shows "cidrStart w n = w AND push_bit (nat ((32 - n) mod 32)) (- 1)"
  by (simp add: cidrStart_def shiftBy_prefix [OF assms])

lemma cidrEnd_prefix:
  assumes "0 \<le> n" "n \<le> 32"
  shows "cidrEnd w n = word_of_int (uint w + (2 ^ nat (32 - n) - 1))"
proof -
  let ?k = "nat (32 - n)"
  from assms have k: "?k \<le> 32" by simp
  have p: "(2::int) ^ ?k \<le> 2 ^ 32" using k by (intro power_increasing) simp_all
  have p0: "(0::int) < 2 ^ ?k" by simp
  from p p0 have a: "\<bar>(2::int) ^ ?k - 1\<bar> < 2 ^ 53" by simp
  have "uint w < 2 ^ 32" using uint_lt2p [of w] by simp
  moreover have "0 \<le> uint w" by simp
  ultimately have b: "\<bar>uint w + (2 ^ ?k - 1)\<bar> < 2 ^ 53" using p p0 by simp
  from assms have x: "\<not> 1024 \<le> 32 - n" "0 \<le> 32 - n" by simp_all
  show ?thesis
    unfolding cidrEnd_def shiftBy_prefix [OF assms] option.case
    by (simp only: x if_False if_True toDouble_small [OF a] jsPlus_def bind.bind_lunit
          toDouble_small [OF b] toUint32_def option.case)
qed

lemma and_not_mask_push_drop: "(w :: 32 word) AND NOT (mask k) = push_bit k (drop_bit k w)"
  by (rule bit_eqI) (auto simp: bit_simps)

lemma unat_cidrStart:
  assumes "1 \<le> n" "n \<le> 32"
  shows "unat (cidrStart w n) = 2 ^ nat (32 - n) * (unat w div 2 ^ nat (32 - n))"
proof -
  let ?k = "nat (32 - n)"
  have "(32 - n) mod 32 = 32 - n"
    by (rule mod_pos_pos_trivial) (use assms in simp_all)
  then have k: "nat ((32 - n) mod 32) = ?k" by (simp only:)
  from assms have n0: "0 \<le> n" by simp
  have "cidrStart w n = push_bit ?k (drop_bit ?k w)"
    unfolding cidrStart_prefix [OF n0 assms(2)] k by (simp add: and_not_mask_push_drop)
  moreover have "unat (push_bit ?k (drop_bit ?k w)) = 2 ^ ?k * (unat w div 2 ^ ?k)"
  proof -
    have "2 ^ ?k * (unat w div 2 ^ ?k) \<le> unat w" by simp
    also have "\<dots> < 2 ^ 32" using unsigned_less [of w] by simp
    finally have lt: "2 ^ ?k * (unat w div 2 ^ ?k) < (2::nat) ^ 32" .
    have "unat (push_bit ?k (drop_bit ?k w)) = take_bit 32 (push_bit ?k (drop_bit ?k (unat w)))"
      by (simp add: unsigned_push_bit_eq unat_drop_bit_eq)
    also have "\<dots> = take_bit 32 (2 ^ ?k * (unat w div 2 ^ ?k))"
      by (simp add: push_bit_eq_mult drop_bit_eq_div mult.commute)
    also have "\<dots> = 2 ^ ?k * (unat w div 2 ^ ?k)"
      using lt by (simp add: take_bit_nat_eq_self)
    finally show ?thesis .
  qed
  ultimately show ?thesis by simp
qed

lemma cidr_bounds_nat:
  assumes "1 \<le> n" "n \<le> 32"
  shows "unat (cidrEnd (cidrStart w n) n) = unat (cidrStart w n) + 2 ^ nat (32 - n) - 1"
    and "unat (cidrStart w n) \<le> unat w"
    and "unat w \<le> unat (cidrEnd (cidrStart w n) n)"
proof -
  let ?k = "nat (32 - n)"
  let ?q = "unat w div 2 ^ ?k"
  have s: "unat (cidrStart w n) = 2 ^ ?k * ?q" using assms by (rule unat_cidrStart)
  from assms have k32: "?k < 32" by simp
  have w: "unat w < 2 ^ 32" using unsigned_less [of w] by simp
  have "?q < 2 ^ (32 - ?k)"
  proof -
    have "unat w < 2 ^ ?k * 2 ^ (32 - ?k)" using w k32 by (simp flip: power_add)
    then show ?thesis by (simp add: less_mult_imp_div_less mult.commute)
  qed
  then have "?q + 1 \<le> 2 ^ (32 - ?k)" by simp
  then have "2 ^ ?k * (?q + 1) \<le> 2 ^ ?k * 2 ^ (32 - ?k)" by (rule mult_le_mono2)
  also have "\<dots> = (2::nat) ^ 32" using k32 by (simp flip: power_add)
  finally have top: "2 ^ ?k * ?q + 2 ^ ?k \<le> (2::nat) ^ 32" by simp
  have pos: "(0::nat) < 2 ^ ?k" by simp
  have e: "cidrEnd (cidrStart w n) n = word_of_nat (unat (cidrStart w n) + 2 ^ ?k - 1)"
  proof -
    have "1 \<le> unat (cidrStart w n) + 2 ^ ?k" using pos by linarith
    then have "int (unat (cidrStart w n) + 2 ^ ?k - 1) = int (unat (cidrStart w n) + 2 ^ ?k) - 1"
      by (simp add: of_nat_diff)
    then have "uint (cidrStart w n) + (2 ^ ?k - 1) = int (unat (cidrStart w n) + 2 ^ ?k - 1)"
      by simp
    then show ?thesis using assms by (simp add: cidrEnd_prefix)
  qed
  have lt: "unat (cidrStart w n) + 2 ^ ?k - 1 < 2 ^ 32" using top pos s by simp
  show 1: "unat (cidrEnd (cidrStart w n) n) = unat (cidrStart w n) + 2 ^ ?k - 1"
    unfolding e using lt by (simp add: unat_of_nat take_bit_nat_eq_self)
  show "unat (cidrStart w n) \<le> unat w" unfolding s by simp
  have "unat w = 2 ^ ?k * ?q + unat w mod 2 ^ ?k" by simp
  moreover have "unat w mod 2 ^ ?k < 2 ^ ?k" by simp
  ultimately show "unat w \<le> unat (cidrEnd (cidrStart w n) n)"
    unfolding 1 s by linarith
qed

lemma word_le_unat: "(a :: 32 word) \<le> b \<longleftrightarrow> unat a \<le> unat b"
  by (rule word_le_nat_alt)


subsection \<open>The binary search\<close>

lemma findLoop_unfold:
  "low \<le> high \<Longrightarrow>
     findLoop rs t low high =
       (if r_start (rs ! nat ((low + high) div 2)) \<le> t \<and> t \<le> r_end (rs ! nat ((low + high) div 2))
        then Some (r_data (rs ! nat ((low + high) div 2)))
        else if t < r_start (rs ! nat ((low + high) div 2))
        then findLoop rs t low ((low + high) div 2 - 1)
        else findLoop rs t ((low + high) div 2 + 1) high)"
  by (subst findLoop.simps) (simp add: Let_def)

text \<open>
  The search finds the data \<open>d\<close> of the range at position \<open>i\<close>, which holds the target, when
  every range either holds the target and has the data \<open>d\<close> too, or stands before
  position \<open>i\<close> and sends the search to the right, or stands after it and sends the
  search to the left.
\<close>

lemma findLoop_finds:
  assumes "i < length rs"
    and "\<And>j. j < length rs \<Longrightarrow>
           (r_start (rs ! j) \<le> t \<and> t \<le> r_end (rs ! j) \<and> r_data (rs ! j) = d)
           \<or> (j < i \<and> r_start (rs ! j) \<le> t \<and> r_end (rs ! j) < t)
           \<or> (i < j \<and> t < r_start (rs ! j))"
    and "0 \<le> low" and "low \<le> int i" and "int i \<le> high" and "high < int (length rs)"
  shows "findLoop rs t low high = Some d"
  using assms(3-6)
proof (induction "nat (high - low + 1)" arbitrary: low high rule: less_induct)
  case less
  let ?mid = "(low + high) div 2"
  let ?m = "nat ?mid"
  from less.prems have lh: "low \<le> high" by simp
  from less.prems have mid: "low \<le> ?mid" "?mid \<le> high" "0 \<le> ?mid" by auto
  with less.prems have m: "?m < length rs" by simp
  note unf = findLoop_unfold [OF lh, of rs t]
  from assms(2) [OF m] consider
      (hit) "r_start (rs ! ?m) \<le> t" "t \<le> r_end (rs ! ?m)" "r_data (rs ! ?m) = d"
    | (right) "?m < i" "r_start (rs ! ?m) \<le> t" "r_end (rs ! ?m) < t"
    | (left) "i < ?m" "t < r_start (rs ! ?m)"
    by blast
  then show ?case
  proof cases
    case hit
    then show ?thesis by (simp add: unf)
  next
    case right
    from right(3) have n1: "\<not> (r_start (rs ! ?m) \<le> t \<and> t \<le> r_end (rs ! ?m))"
      by (simp add: not_le)
    from right(2) have n2: "\<not> t < r_start (rs ! ?m)" by (simp add: not_less)
    from right(1) mid have i: "?mid + 1 \<le> int i" by linarith
    have "findLoop rs t (?mid + 1) high = Some d"
      by (rule less.hyps) (use less.prems mid i in auto)
    with n1 n2 show ?thesis by (simp only: unf if_False)
  next
    case left
    from left(2) have n1: "\<not> (r_start (rs ! ?m) \<le> t \<and> t \<le> r_end (rs ! ?m))"
      by (simp add: not_le)
    from left(1) mid have i: "int i \<le> ?mid - 1" by linarith
    have "findLoop rs t low (?mid - 1) = Some d"
      by (rule less.hyps) (use less.prems mid i in auto)
    with n1 left(2) show ?thesis by (simp only: unf if_False if_True)
  qed
qed

lemma findLoop_sound:
  assumes "0 \<le> low" and "high < int (length rs)" and "findLoop rs t low high = Some d"
  shows "\<exists>j<length rs. r_start (rs ! j) \<le> t \<and> t \<le> r_end (rs ! j) \<and> d = r_data (rs ! j)"
  using assms
proof (induction "nat (high - low + 1)" arbitrary: low high rule: less_induct)
  case less
  let ?mid = "(low + high) div 2"
  let ?m = "nat ?mid"
  have lh: "low \<le> high"
  proof (rule ccontr)
    assume "\<not> low \<le> high"
    with less.prems(3) show False by (simp add: findLoop.simps)
  qed
  with less.prems have mid: "low \<le> ?mid" "?mid \<le> high" "0 \<le> ?mid" by auto
  with less.prems have m: "?m < length rs" by simp
  note unf = findLoop_unfold [OF lh, of rs t]
  show ?case
  proof (cases "r_start (rs ! ?m) \<le> t \<and> t \<le> r_end (rs ! ?m)")
    case True
    with less.prems(3) have "d = r_data (rs ! ?m)"
      by (simp only: unf if_True) simp
    with True m show ?thesis by blast
  next
    case False
    show ?thesis
    proof (cases "t < r_start (rs ! ?m)")
      case True
      with False less.prems(3) have f: "findLoop rs t low (?mid - 1) = Some d"
        by (simp only: unf if_False if_True)
      show ?thesis
        by (rule less.hyps [OF _ _ _ f]) (use less.prems mid in auto)
    next
      case nlt: False
      with False less.prems(3) have f: "findLoop rs t (?mid + 1) high = Some d"
        by (simp only: unf if_False)
      show ?thesis
        by (rule less.hyps [OF _ _ _ f]) (use less.prems mid in auto)
    qed
  qed
qed

lemma findInRange_single:
  assumes "sortedRanges bd = [\<lparr>r_start = s, r_end = e, r_data = d\<rparr>]"
    and "ipToLong a \<noteq> 0" and "s \<le> ipToLong a" and "ipToLong a \<le> e"
  shows "findInRange bd a = Some d"
  using assms by (simp add: findInRange_def Let_def findLoop_unfold)


subsection \<open>Range lookup\<close>

lemma cidr_bounds_whole:
  "cidrStart 0 0 = 0" "cidrEnd 0 0 = - 1"
proof -
  show "cidrStart 0 0 = 0" by (simp add: cidrStart_prefix)
  have "cidrEnd 0 0 = (word_of_int (2 ^ 32 - 1) :: 32 word)" by (simp add: cidrEnd_prefix)
  also have "\<dots> = - 1" by simp
  finally show "cidrEnd 0 0 = - 1" .
qed

text \<open>
  Claim C3, as the code has it. Let a feed contain a tuple whose range is \<open>a.b.c.d/n\<close> with
  a prefix length \<open>n\<close> from 1 to 32, or with \<open>n = 0\<close> and an address that reads as 0
  (\<open>0.0.0.0/0\<close>), and let the ranges of the loaded index stand apart from this one: every
  range with other bounds starts and ends below its start, or starts above its end. Then
  the range runs from the address masked by the prefix length to that start plus
  \<open>2 ^ (32 - n) - 1\<close>, without wrapping, and contains the address; for \<open>n = 32\<close> it is the
  single address and for \<open>n = 0\<close> the whole address space. Every address in the range
  other than \<open>0.0.0.0\<close> resolves by \<open>findInRange\<close> to the entry the feed leaves for these
  bounds (the tuple's entry, merged with the others of the same bounds); and an address
  outside it resolves to nothing or to the entry of other bounds that contain it.
  Nothing is said about \<open>n = 0\<close> with another address, where the shift by 32 leaves the
  address unmasked.
\<close>

theorem range_lookup:
  assumes "(rng, type, name, category, rating, source) \<in> set feed"
    and "splitOn CHR ''/'' (trim rng) = ip # msk # rest" and "parseInt10 msk = Some n"
    and "0 \<le> n" and "n \<le> 32" and "1 \<le> n \<or> ipToLong ip = 0"
    and "apart (sortedRanges (loadAllBotData feed))
           (cidrStart (ipToLong ip) n, cidrEnd (cidrStart (ipToLong ip) n) n)"
  shows "let s = cidrStart (ipToLong ip) n; e = cidrEnd s n; idx = loadAllBotData feed
         in unat e = unat s + 2 ^ nat (32 - n) - 1
          \<and> s \<le> ipToLong ip \<and> ipToLong ip \<le> e
          \<and> (n = 32 \<longrightarrow> s = ipToLong ip \<and> e = ipToLong ip)
          \<and> (n = 0 \<longrightarrow> (\<forall>w. s \<le> w \<and> w \<le> e))
          \<and> mergedEntry feed (s, e) \<noteq> None
          \<and> (\<forall>a. ipToLong a \<noteq> 0 \<and> s \<le> ipToLong a \<and> ipToLong a \<le> e \<longrightarrow>
                findInRange idx a = mergedEntry feed (s, e))
          \<and> (\<forall>a. ipToLong a < s \<or> e < ipToLong a \<longrightarrow>
                findInRange idx a = None
                \<or> (\<exists>b. b \<noteq> (s, e) \<and> fst b \<le> ipToLong a \<and> ipToLong a \<le> snd b
                        \<and> findInRange idx a = mergedEntry feed b))"
proof -
  define s where "s = cidrStart (ipToLong ip) n"
  define e where "e = cidrEnd s n"
  define idx where "idx = loadAllBotData feed"
  let ?rs = "sortedRanges idx"
  have b: "cidrBounds rng = Some (s, e)"
    using cidrBounds_parsed [OF assms(2,3)] by (simp add: s_def e_def)
  have whole: "s = 0 \<and> e = - 1" if "n = 0"
  proof -
    from that assms(6) have "ipToLong ip = 0" by simp
    with that show ?thesis by (simp add: s_def e_def cidr_bounds_whole)
  qed
  have 1: "unat e = unat s + 2 ^ nat (32 - n) - 1"
  proof (cases "n = 0")
    case True
    have "unat (- 1 :: 32 word) = 2 ^ 32 - 1" by (simp add: unsigned_minus_1_eq_mask mask_eq_exp_minus_1)
    with whole [OF True] True show ?thesis by simp
  next
    case False
    with assms(4) have "1 \<le> n" by simp
    then show ?thesis unfolding e_def s_def using assms(5) by (rule cidr_bounds_nat(1))
  qed
  have "s \<le> ipToLong ip \<and> ipToLong ip \<le> e"
  proof (cases "n = 0")
    case True
    with whole [OF True] show ?thesis by simp
  next
    case False
    with assms(4) have "1 \<le> n" by simp
    then show ?thesis
      unfolding e_def s_def word_le_unat using assms(5) by (intro conjI cidr_bounds_nat(2,3))
  qed
  then have 2: "s \<le> ipToLong ip" "ipToLong ip \<le> e" by simp_all
  then have se: "s \<le> e" by (rule order_trans)
  have single: "s = ipToLong ip \<and> e = ipToLong ip" if "n = 32"
  proof -
    from 1 that have "unat e = unat s" by simp
    then have "e = s" by (simp add: word_unat_eq_iff)
    with 2 show ?thesis by simp
  qed
  have all: "\<forall>w. s \<le> w \<and> w \<le> e" if "n = 0"
    using whole [OF that] by simp
  have 3: "mergedEntry feed (s, e) \<noteq> None"
    using assms(1) b by (intro mergedEntry_member [of "(rng, type, name, category, rating, source)"]) simp_all
  have srt: "sorted (map r_start ?rs)" unfolding idx_def by (rule sorted_load)
  have ap: "rangeBounds r = (s, e) \<or> (r_start r < s \<and> r_end r < s) \<or> e < r_start r" if "r \<in> set ?rs" for r
    using assms(7) that unfolding apart_def list_all_iff idx_def s_def e_def by auto
  from load_range_present [OF 3] obtain r where r: "r \<in> set ?rs" "rangeBounds r = (s, e)"
    unfolding idx_def by blast
  then obtain i where i: "i < length ?rs" "?rs ! i = r" by (auto simp: in_set_conv_nth)
  from r(2) i(2) have ri: "r_start (?rs ! i) = s" "r_end (?rs ! i) = e" by (simp_all add: rangeBounds_def)
  from load_data [of r feed] r have m: "mergedEntry feed (s, e) = Some (r_data r)"
    by (simp add: idx_def)
  have starts: "r_start (?rs ! j) \<le> r_start (?rs ! k)" if "j \<le> k" "k < length ?rs" for j k
    using sorted_nth_mono [OF srt, of j k] that by simp
  have 4: "findInRange idx a = mergedEntry feed (s, e)"
    if a: "ipToLong a \<noteq> 0 \<and> s \<le> ipToLong a \<and> ipToLong a \<le> e" for a
  proof -
    let ?t = "ipToLong a"
    from a have t: "s \<le> ?t" "?t \<le> e" by simp_all
    have each: "(r_start (?rs ! j) \<le> ?t \<and> ?t \<le> r_end (?rs ! j) \<and> r_data (?rs ! j) = r_data r)
           \<or> (j < i \<and> r_start (?rs ! j) \<le> ?t \<and> r_end (?rs ! j) < ?t)
           \<or> (i < j \<and> ?t < r_start (?rs ! j))" if j: "j < length ?rs" for j
    proof -
      from j have mem: "?rs ! j \<in> set ?rs" by simp
      from ap [OF mem] consider
          (same) "rangeBounds (?rs ! j) = (s, e)"
        | (below) "r_start (?rs ! j) < s" "r_end (?rs ! j) < s"
        | (above) "e < r_start (?rs ! j)"
        by blast
      then show ?thesis
      proof cases
        case same
        from load_data [OF mem [unfolded idx_def]] same m have "r_data (?rs ! j) = r_data r"
          by (simp add: idx_def)
        moreover from same t have "r_start (?rs ! j) \<le> ?t" "?t \<le> r_end (?rs ! j)"
          by (simp_all add: rangeBounds_def)
        ultimately show ?thesis by simp
      next
        case below
        have "j < i"
        proof (rule ccontr)
          assume "\<not> j < i"
          then have "i \<le> j" by simp
          from starts [OF this j] ri(1) below(1) show False by simp
        qed
        moreover from below t(1) have "r_start (?rs ! j) \<le> ?t" "r_end (?rs ! j) < ?t" by order+
        ultimately show ?thesis by simp
      next
        case above
        have "i < j"
        proof (rule ccontr)
          assume "\<not> i < j"
          then have "j \<le> i" by simp
          from starts [OF this i(1)] ri(1) have "r_start (?rs ! j) \<le> s" by simp
          with above se show False by order
        qed
        moreover from above t(2) have "?t < r_start (?rs ! j)" by order
        ultimately show ?thesis by simp
      qed
    qed
    have "findLoop ?rs ?t 0 (int (length ?rs) - 1) = Some (r_data r)"
      by (rule findLoop_finds [OF i(1) each]) (use i(1) in simp_all)
    with m a show ?thesis by (simp add: findInRange_def Let_def)
  qed
  have 5: "findInRange idx a = None
           \<or> (\<exists>b. b \<noteq> (s, e) \<and> fst b \<le> ipToLong a \<and> ipToLong a \<le> snd b
                   \<and> findInRange idx a = mergedEntry feed b)"
    if a: "ipToLong a < s \<or> e < ipToLong a" for a
  proof (cases "findInRange idx a")
    case None
    then show ?thesis by simp
  next
    case (Some d)
    then have "findLoop ?rs (ipToLong a) 0 (int (length ?rs) - 1) = Some d"
      by (auto simp: findInRange_def Let_def split: if_splits)
    from findLoop_sound [OF _ _ this] obtain j where j: "j < length ?rs"
      "r_start (?rs ! j) \<le> ipToLong a" "ipToLong a \<le> r_end (?rs ! j)" "d = r_data (?rs ! j)"
      by auto
    from j(1) have "?rs ! j \<in> set ?rs" by simp
    from load_data [OF this [unfolded idx_def]] j(4)
    have m: "mergedEntry feed (rangeBounds (?rs ! j)) = Some d" by (simp add: idx_def)
    have "rangeBounds (?rs ! j) \<noteq> (s, e)"
    proof
      assume "rangeBounds (?rs ! j) = (s, e)"
      then have "s \<le> ipToLong a" "ipToLong a \<le> e" using j(2,3) by (simp_all add: rangeBounds_def)
      with a show False by auto
    qed
    with j(2,3) m Some show ?thesis
      by (intro disjI2 exI [of _ "rangeBounds (?rs ! j)"]) (simp add: rangeBounds_def)
  qed
  from 1 2 single all 3 4 5 show ?thesis
    unfolding Let_def s_def [symmetric] e_def [symmetric] idx_def [symmetric] by blast
qed

theorem range_lookup_witness:
  "apart (sortedRanges (loadAllBotData exMixed)) (167772160, 184549375)
   \<and> map rangeBounds (sortedRanges (loadAllBotData exMixed))
       = [(0, 7), (0, 0), (167772160, 184549375), (3232235776, 3232236031), (3232235783, 3232235783)]
   \<and> splitOn CHR ''/'' (trim ''10.0.0.0/8'') = [''10.0.0.0'', ''8'']
   \<and> parseInt10 ''8'' = Some 8
   \<and> cidrStart (ipToLong ''10.0.0.0'') 8 = 167772160
   \<and> cidrEnd 167772160 8 = 184549375
   \<and> ipToLong ''10.255.255.255'' = 184549375
   \<and> findInRange (loadAllBotData exMixed) ''10.255.255.255'' = mergedEntry exMixed (167772160, 184549375)
   \<and> mergedEntry exMixed (167772160, 184549375) \<noteq> None
   \<and> apart (sortedRanges (loadAllBotData exWhole)) (0, - 1)
   \<and> parseInt10 ''0'' = Some 0 \<and> ipToLong ''0.0.0.0'' = 0
   \<and> cidrStart 0 0 = 0 \<and> cidrEnd 0 0 = - 1
   \<and> ipToLong ''255.255.255.255'' = - 1
   \<and> findInRange (loadAllBotData exWhole) ''255.255.255.255'' = mergedEntry exWhole (0, - 1)
   \<and> mergedEntry exWhole (0, - 1) \<noteq> None"
proof -
  have m: "(''10.0.0.0/8'', ''bot'', Some ''Googlebot'', Some ''Search Engine'', Some ''good'',
            ''Official-Source'') \<in> set exMixed"
    by (simp add: exMixed_def exBot_def)
  have d: "apart (sortedRanges (loadAllBotData exMixed)) (167772160, 184549375)"
    by code_simp
  have l: "map rangeBounds (sortedRanges (loadAllBotData exMixed))
       = [(0, 7), (0, 0), (167772160, 184549375), (3232235776, 3232236031), (3232235783, 3232235783)]"
    by code_simp
  have p: "splitOn CHR ''/'' (trim ''10.0.0.0/8'') = [''10.0.0.0'', ''8'']" by code_simp
  have n: "parseInt10 ''8'' = Some 8" by code_simp
  have s: "cidrStart (ipToLong ''10.0.0.0'') 8 = 167772160" by code_simp
  have e: "cidrEnd 167772160 8 = 184549375" by code_simp
  have a: "ipToLong ''10.255.255.255'' = 184549375" by code_simp
  have d': "apart (sortedRanges (loadAllBotData exMixed))
           (cidrStart (ipToLong ''10.0.0.0'') 8, cidrEnd (cidrStart (ipToLong ''10.0.0.0'') 8) 8)"
    unfolding s e by (rule d)
  have m0: "(''0.0.0.0/0'', ''bot'', Some ''Firehol Blocklist'', Some ''Malicious'', Some ''bad'',
            ''Firehol'') \<in> set exWhole"
    by (simp add: exWhole_def)
  have d0: "apart (sortedRanges (loadAllBotData exWhole)) (0, - 1)" by code_simp
  have p0: "splitOn CHR ''/'' (trim ''0.0.0.0/0'') = [''0.0.0.0'', ''0'']" by code_simp
  have n0: "parseInt10 ''0'' = Some 0" by code_simp
  have z: "ipToLong ''0.0.0.0'' = 0" by code_simp
  have a0: "ipToLong ''255.255.255.255'' = - 1" by code_simp
  have d0': "apart (sortedRanges (loadAllBotData exWhole))
           (cidrStart (ipToLong ''0.0.0.0'') 0, cidrEnd (cidrStart (ipToLong ''0.0.0.0'') 0) 0)"
    unfolding z cidr_bounds_whole by (rule d0)
  from range_lookup [OF m p n _ _ _ d'] s e a
  have 1: "findInRange (loadAllBotData exMixed) ''10.255.255.255'' = mergedEntry exMixed (167772160, 184549375)
           \<and> mergedEntry exMixed (167772160, 184549375) \<noteq> None"
    by (simp add: Let_def)
  from range_lookup [OF m0 p0 n0 _ _ _ d0'] z a0
  have 2: "findInRange (loadAllBotData exWhole) ''255.255.255.255'' = mergedEntry exWhole (0, - 1)
           \<and> mergedEntry exWhole (0, - 1) \<noteq> None"
    by (simp add: Let_def cidr_bounds_whole)
  from d l p n s e a 1 d0 n0 z a0 2 cidr_bounds_whole show ?thesis by (intro conjI) simp_all
qed

text \<open>
  The binary search misses a range that another range overlaps: with \<open>10.0.0.0/8\<close>,
  \<open>10.1.0.0/16\<close> and \<open>10.2.0.0/16\<close> loaded, the address \<open>10.3.0.1\<close> lies in the first range
  and resolves to nothing. \<open>findInRange\<close> gives up on the number 0, so \<open>0.0.0.0\<close> resolves
  to nothing although it lies in \<open>0.0.0.0/8\<close>. And for \<open>n = 0\<close> the address is not masked:
  \<open>10.1.2.3/0\<close> is stored with its end below its start, and no address resolves to it.
\<close>

theorem range_lookup_counterexample:
  "cidrBounds (fst exDatacenter) = Some (167772160, 184549375)
   \<and> (167772160 :: 32 word) \<le> ipToLong ''10.3.0.1'' \<and> ipToLong ''10.3.0.1'' \<le> (184549375 :: 32 word)
   \<and> findInRange (loadAllBotData exOverlap) ''10.3.0.1'' = None
   \<and> cidrBounds ''0.0.0.0/8'' = Some (0, 16777215)
   \<and> ipToLong ''0.0.0.0'' = 0
   \<and> findInRange (loadAllBotData exZero) ''0.0.0.0'' = None
   \<and> cidrBounds ''10.1.2.3/0'' = Some (167838211, 167838210)
   \<and> ipToLong ''10.1.2.3'' = 167838211
   \<and> findInRange (loadAllBotData exUnmasked) ''10.1.2.3'' = None
   \<and> findInRange (loadAllBotData exUnmasked) ''8.8.8.8'' = None"
  by code_simp

subsection \<open>Merging a datacenter entry and a bot entry of one scope\<close>

lemma load_two_cidr:
  assumes "cidrBounds rng = Some (s, e)"
  shows "sortedRanges (loadAllBotData [(rng, t1, n1, c1, g1, s1), (rng, t2, n2, c2, g2, s2)]) =
           [\<lparr>r_start = s, r_end = e,
             r_data = merge (Some (newData (trim rng) t1 n1 c1 g1 s1)) (newData (trim rng) t2 n2 c2 g2 s2)\<rparr>]"
  using assms
  by (simp add: loadAllBotData_def sortRanges_def addTuple_def sortedRanges_addEntry emptyData_def)

lemma load_two_exact:
  assumes "rng \<noteq> []" "CHR ''/'' \<notin> set (trim rng)"
  shows "singleIPs (loadAllBotData [(rng, t1, n1, c1, g1, s1), (rng, t2, n2, c2, g2, s2)]) (trim rng) =
           Some (merge (Some (newData (trim rng) t1 n1 c1 g1 s1)) (newData (trim rng) t2 n2 c2 g2 s2))"
  using assms
  by (simp add: loadAllBotData_def sortRanges_def addTuple_def singleIPs_addEntry emptyData_def merge_def)

lemma merge_dc_bot:
  assumes "\<not> isGeneric bn"
  shows "merge (Some (newData r ''datacenter'' dn dc dg ds)) (newData r ''bot'' (Some bn) bc bg bs) =
           \<lparr>e_range = r, e_type = ''bot'', e_name = bn, e_category = orDefault bc ''Uncategorized'',
            e_rating = orDefault bg ''neutral'', e_source = ds @ '' + '' @ bs, e_datacenter = None\<rparr>"
  using assms by (simp add: merge_def newData_def isGeneric_def isDC_def orDefault_def)

lemma merge_bot_dc:
  assumes "\<not> isGeneric bn"
  shows "merge (Some (newData r ''bot'' (Some bn) bc bg bs)) (newData r ''datacenter'' dn dc dg ds) =
           \<lparr>e_range = r, e_type = ''bot'', e_name = bn, e_category = orDefault bc ''Uncategorized'',
            e_rating = orDefault bg ''neutral'', e_source = bs @ '' (DC: '' @ ds @ '')'',
            e_datacenter = Some (orDefault dn ''Unknown'')\<rparr>"
  using assms by (simp add: merge_def newData_def isGeneric_def isDC_def orDefault_def)


text \<open>
  What the two orders give, for a scope \<open>R\<close> (a CIDR range or an exact address), a
  datacenter entry and a bot entry with a specific name. Whichever is ingested first, the
  lookup gives the merged entry, of kind \<open>bot\<close>, with the bot's name, category and
  rating. Ingested bot first, the merged entry carries the datacenter entry's name in
  its \<open>datacenter\<close> field and the provenance \<open>bot (DC: datacenter)\<close>; ingested datacenter
  first, its \<open>datacenter\<close> field is empty and its provenance is \<open>datacenter + bot\<close>.
\<close>

lemma merge_both_orders:
  assumes "\<not> isGeneric bn"
  shows
    "(let dc = (rng, ''datacenter'', dn, dcat, drat, dsrc);
          bt = (rng, ''bot'', Some bn, bcat, brat, bsrc);
          dcFirst = loadAllBotData [dc, bt];
          botFirst = loadAllBotData [bt, dc];
          m1 = merge (Some (tupleData dc)) (tupleData bt);
          m2 = merge (Some (tupleData bt)) (tupleData dc)
      in (\<forall>s e a. cidrBounds rng = Some (s, e) \<and> ipToLong a \<noteq> 0 \<and> s \<le> ipToLong a \<and> ipToLong a \<le> e \<longrightarrow>
            findInRange dcFirst a = Some m1 \<and> findInRange botFirst a = Some m2)
       \<and> (rng \<noteq> [] \<and> CHR ''/'' \<notin> set (trim rng) \<longrightarrow>
            singleIPs dcFirst (trim rng) = Some m1 \<and> singleIPs botFirst (trim rng) = Some m2)
       \<and> e_type m1 = ''bot'' \<and> e_name m1 = bn
       \<and> e_category m1 = orDefault bcat ''Uncategorized'' \<and> e_rating m1 = orDefault brat ''neutral''
       \<and> e_datacenter m1 = None
       \<and> e_source m1 = dsrc @ '' + '' @ bsrc
       \<and> e_type m2 = ''bot'' \<and> e_name m2 = bn
       \<and> e_category m2 = orDefault bcat ''Uncategorized'' \<and> e_rating m2 = orDefault brat ''neutral''
       \<and> e_datacenter m2 = Some (orDefault dn ''Unknown'')
       \<and> e_source m2 = bsrc @ '' (DC: '' @ dsrc @ '')'')"
proof -
  let ?dc = "(rng, ''datacenter'', dn, dcat, drat, dsrc)"
  let ?bt = "(rng, ''bot'', Some bn, bcat, brat, bsrc)"
  let ?m1 = "merge (Some (tupleData ?dc)) (tupleData ?bt)"
  let ?m2 = "merge (Some (tupleData ?bt)) (tupleData ?dc)"
  have r: "findInRange (loadAllBotData [?dc, ?bt]) a = Some ?m1
           \<and> findInRange (loadAllBotData [?bt, ?dc]) a = Some ?m2"
    if h: "cidrBounds rng = Some (s, e) \<and> ipToLong a \<noteq> 0 \<and> s \<le> ipToLong a \<and> ipToLong a \<le> e"
    for s e a
  proof -
    from h have b: "cidrBounds rng = Some (s, e)" and a: "ipToLong a \<noteq> 0" "s \<le> ipToLong a" "ipToLong a \<le> e"
      by simp_all
    show ?thesis
      using findInRange_single [OF load_two_cidr [OF b] a] by (simp add: tupleData_def)
  qed
  have x: "singleIPs (loadAllBotData [?dc, ?bt]) (trim rng) = Some ?m1
           \<and> singleIPs (loadAllBotData [?bt, ?dc]) (trim rng) = Some ?m2"
    if h: "rng \<noteq> [] \<and> CHR ''/'' \<notin> set (trim rng)"
  proof -
    from h have n: "rng \<noteq> []" "CHR ''/'' \<notin> set (trim rng)" by simp_all
    show ?thesis using load_two_exact [OF n] by (simp add: tupleData_def)
  qed
  have m1: "?m1 = \<lparr>e_range = trim rng, e_type = ''bot'', e_name = bn,
            e_category = orDefault bcat ''Uncategorized'', e_rating = orDefault brat ''neutral'',
            e_source = dsrc @ '' + '' @ bsrc, e_datacenter = None\<rparr>"
    using merge_dc_bot [OF assms] by (simp add: tupleData_def)
  have m2: "?m2 = \<lparr>e_range = trim rng, e_type = ''bot'', e_name = bn,
            e_category = orDefault bcat ''Uncategorized'', e_rating = orDefault brat ''neutral'',
            e_source = bsrc @ '' (DC: '' @ dsrc @ '')'',
            e_datacenter = Some (orDefault dn ''Unknown'')\<rparr>"
    using merge_bot_dc [OF assms] by (simp add: tupleData_def)
  have f1: "e_type ?m1 = ''bot'' \<and> e_name ?m1 = bn
       \<and> e_category ?m1 = orDefault bcat ''Uncategorized'' \<and> e_rating ?m1 = orDefault brat ''neutral''
       \<and> e_datacenter ?m1 = None
       \<and> e_source ?m1 = dsrc @ '' + '' @ bsrc"
    unfolding m1 by simp
  have f2: "e_type ?m2 = ''bot'' \<and> e_name ?m2 = bn
       \<and> e_category ?m2 = orDefault bcat ''Uncategorized'' \<and> e_rating ?m2 = orDefault brat ''neutral''
       \<and> e_datacenter ?m2 = Some (orDefault dn ''Unknown'')
       \<and> e_source ?m2 = bsrc @ '' (DC: '' @ dsrc @ '')''"
    unfolding m2 by simp
  from r have R: "\<forall>s e a. cidrBounds rng = Some (s, e) \<and> ipToLong a \<noteq> 0 \<and> s \<le> ipToLong a \<and> ipToLong a \<le> e \<longrightarrow>
            findInRange (loadAllBotData [?dc, ?bt]) a = Some ?m1
            \<and> findInRange (loadAllBotData [?bt, ?dc]) a = Some ?m2"
    by blast
  from x have X: "rng \<noteq> [] \<and> CHR ''/'' \<notin> set (trim rng) \<longrightarrow>
            singleIPs (loadAllBotData [?dc, ?bt]) (trim rng) = Some ?m1
            \<and> singleIPs (loadAllBotData [?bt, ?dc]) (trim rng) = Some ?m2"
    by blast
  from R X f1 f2 show ?thesis unfolding Let_def by (elim conjE) (intro conjI; assumption)
qed


text \<open>
  Claim C1 fails on the code. With the datacenter entry \<open>Amazon AWS\<close> for \<open>10.0.0.0/8\<close>
  ingested first and the bot entry \<open>Googlebot\<close> for the same range second, the lookup of
  \<open>10.1.2.3\<close> gives kind \<open>bot\<close> and the name \<open>Googlebot\<close>, but the \<open>datacenter\<close> field of the
  merged entry is empty, and the classification of the address is no datacenter and has
  no datacenter name. With the bot entry first, the field and the classification hold
  \<open>Amazon AWS\<close>. So the name of the datacenter is lost in one order and the two orders
  do not end in the same state. The branch of \<open>merge\<close> that takes the bot's identity
  overwrites the name and never sets the field, against the comment above it (an incoming
  bot on an existing datacenter is to keep both) and against the branch for the other
  order, which sets it.
\<close>

theorem merge_datacenter_first:
  "findInRange (loadAllBotData [exDatacenter, exBot]) ''10.1.2.3''
     = Some \<lparr>e_range = ''10.0.0.0/8'', e_type = ''bot'', e_name = ''Googlebot'',
             e_category = ''Search Engine'', e_rating = ''good'',
             e_source = ''Hexydec-Datacenters + Official-Source'', e_datacenter = None\<rparr>
   \<and> findInRange (loadAllBotData [exBot, exDatacenter]) ''10.1.2.3''
     = Some \<lparr>e_range = ''10.0.0.0/8'', e_type = ''bot'', e_name = ''Googlebot'',
             e_category = ''Search Engine'', e_rating = ''good'',
             e_source = ''Official-Source (DC: Hexydec-Datacenters)'', e_datacenter = Some ''Amazon AWS''\<rparr>
   \<and> isDatacenter (checkBot noBotUA noLabel (loadAllBotData [exDatacenter, exBot]) (Some ''10.1.2.3'') None) = False
   \<and> datacenterName (checkBot noBotUA noLabel (loadAllBotData [exDatacenter, exBot]) (Some ''10.1.2.3'') None) = None
   \<and> isDatacenter (checkBot noBotUA noLabel (loadAllBotData [exBot, exDatacenter]) (Some ''10.1.2.3'') None) = True
   \<and> datacenterName (checkBot noBotUA noLabel (loadAllBotData [exBot, exDatacenter]) (Some ''10.1.2.3'') None)
       = Some ''Amazon AWS''"
  by code_simp

subsection \<open>The classification\<close>

lemma initResult_simps:
  "isBot initResult = False" "isDatacenter initResult = False" "datacenterName initResult = None"
  "botName initResult = None" "botType initResult = None" "botSource initResult = None"
  "isGoodBot initResult = None"
  by (simp_all add: initResult_def)

lemma scrub_untagged: "n \<in> set untaggedNames \<Longrightarrow> scrub v \<noteq> Some n"
  by (cases v) (auto simp: scrub_def)

lemma applyIpMatch_datacenterName:
  "n \<in> set untaggedNames \<Longrightarrow> datacenterName (applyIpMatch m initResult) \<noteq> Some n"
  by (simp add: applyIpMatch_def Let_def scrub_untagged)

lemma ipPhase_datacenterName:
  "n \<in> set untaggedNames \<Longrightarrow> datacenterName (ipPhase bd ip) \<noteq> Some n"
  by (simp add: ipPhase_def initResult_simps applyIpMatch_datacenterName split: option.splits)

lemma checkBot_datacenter:
  "isDatacenter (checkBot isbot isbotMatch bd ip ua) = isDatacenter (ipPhase bd ip)"
  "datacenterName (checkBot isbot isbotMatch bd ip ua) = datacenterName (ipPhase bd ip)"
  by (auto simp: checkBot_def Let_def split: option.splits)

lemma checkBot_ip_bot:
  "isBot (ipPhase bd ip) \<Longrightarrow> checkBot isbot isbotMatch bd ip ua = ipPhase bd ip"
  by (auto simp: checkBot_def Let_def split: option.splits)

lemma applyIpMatch_bot:
  assumes "e_type m = ''bot''"
  shows "isBot (applyIpMatch m initResult)"
    and "botName (applyIpMatch m initResult) =
           (if e_name m = [] \<or> e_name m \<in> set untaggedNames then None else Some (e_name m))"
    and "botType (applyIpMatch m initResult) =
           Some (if e_category m = [] \<or> e_category m = ''Uncategorized'' then ''Unknown'' else e_category m)"
  using assms by (auto simp: applyIpMatch_def Let_def scrub_def untaggedNames_def)

lemma ipPhase_botType: "isBot (ipPhase bd ip) \<Longrightarrow> botType (ipPhase bd ip) \<noteq> None"
  by (auto simp: ipPhase_def initResult_def applyIpMatch_def Let_def split: option.splits if_splits)

lemma checkBot_botType:
  "isBot (checkBot isbot isbotMatch bd ip ua) \<Longrightarrow> botType (checkBot isbot isbotMatch bd ip ua) \<noteq> None"
  using ipPhase_botType [of bd ip]
  by (auto simp: checkBot_def Let_def split: option.splits if_splits)

lemma ipPhase_bot_fields:
  "\<not> isBot (ipPhase bd ip) \<Longrightarrow>
     botName (ipPhase bd ip) = None \<and> botType (ipPhase bd ip) = None \<and> botSource (ipPhase bd ip) = None"
  by (auto simp: ipPhase_def applyIpMatch_def initResult_def scrub_def Let_def split: option.splits if_splits)

lemma checkBot_bot_fields:
  "\<not> isBot (checkBot isbot isbotMatch bd ip ua) \<Longrightarrow>
     botName (checkBot isbot isbotMatch bd ip ua) = None
     \<and> botType (checkBot isbot isbotMatch bd ip ua) = None
     \<and> botSource (checkBot isbot isbotMatch bd ip ua) = None"
  using ipPhase_bot_fields [of bd ip]
  by (auto simp: checkBot_def Let_def split: option.splits if_splits)

lemma ipPhase_bot_labels:
  "isBot (ipPhase bd ip) \<Longrightarrow> truthy (botType (ipPhase bd ip)) \<and> truthy (botSource (ipPhase bd ip))"
  by (auto simp: ipPhase_def initResult_def applyIpMatch_def Let_def truthy_def split: option.splits if_splits)

lemma checkBot_bot_labels:
  "isBot (checkBot isbot isbotMatch bd ip ua) \<Longrightarrow>
     truthy (botType (checkBot isbot isbotMatch bd ip ua))
     \<and> truthy (botSource (checkBot isbot isbotMatch bd ip ua))"
  using ipPhase_bot_labels [of bd ip]
  by (auto simp: checkBot_def Let_def truthy_def split: option.splits if_splits)

lemma classify_bot_labels:
  "isBot (classify isbot isbotMatch bd r) \<Longrightarrow>
     truthy (botType (classify isbot isbotMatch bd r))
     \<and> truthy (botSource (classify isbot isbotMatch bd r))"
  using checkBot_bot_labels [of isbot isbotMatch bd "processedIp r" "userAgent r"]
    checkBot_bot_labels [of isbot isbotMatch bd "asAddress (existingInitialIp r)" "userAgent r"]
  by (auto simp: classify_def Let_def split: if_splits)

lemma classify_bot_fields:
  "\<not> isBot (classify isbot isbotMatch bd r) \<Longrightarrow>
     botName (classify isbot isbotMatch bd r) = None
     \<and> botType (classify isbot isbotMatch bd r) = None
     \<and> botSource (classify isbot isbotMatch bd r) = None"
  using checkBot_bot_fields [of isbot isbotMatch bd "processedIp r" "userAgent r"]
  by (auto simp: classify_def Let_def split: if_splits)


text \<open>
  Claim C7, as the code has it. The datacenter name of a classification is never one of
  the scrubbed labels (\<open>Unknown\<close>, \<open>Uncategorized\<close>, \<open>Firehol Blocklist\<close>,
  \<open>Avastel Blocklist\<close>). When the address matches an entry of kind \<open>bot\<close>, the result is a
  bot whose name is the entry's name, or null when that name is empty or a scrubbed
  label; the entry's category has no influence on the name. Its category is the entry's
  category, or \<open>Unknown\<close> when that is empty or \<open>Uncategorized\<close>; and no classification
  that is a bot has a null category.
\<close>

theorem sentinel_scrubbing:
  "(\<forall>n \<in> set untaggedNames. datacenterName (checkBot isbot isbotMatch bd ip ua) \<noteq> Some n)
   \<and> (\<forall>a m. ip = Some a \<and> a \<noteq> [] \<and> ipMatch bd a = Some m \<and> e_type m = ''bot'' \<longrightarrow>
         isBot (checkBot isbot isbotMatch bd ip ua)
         \<and> botName (checkBot isbot isbotMatch bd ip ua) =
             (if e_name m = [] \<or> e_name m \<in> set untaggedNames then None else Some (e_name m))
         \<and> botType (checkBot isbot isbotMatch bd ip ua) =
             Some (if e_category m = [] \<or> e_category m = ''Uncategorized'' then ''Unknown''
                   else e_category m))
   \<and> (isBot (checkBot isbot isbotMatch bd ip ua) \<longrightarrow> botType (checkBot isbot isbotMatch bd ip ua) \<noteq> None)"
proof -
  let ?c = "checkBot isbot isbotMatch bd ip ua"
  have 1: "\<forall>n \<in> set untaggedNames. datacenterName ?c \<noteq> Some n"
    using ipPhase_datacenterName [of _ bd ip] by (simp only: checkBot_datacenter) blast
  have 2: "isBot ?c
         \<and> botName ?c = (if e_name m = [] \<or> e_name m \<in> set untaggedNames then None else Some (e_name m))
         \<and> botType ?c = Some (if e_category m = [] \<or> e_category m = ''Uncategorized'' then ''Unknown''
                              else e_category m)"
    if h: "ip = Some a \<and> a \<noteq> [] \<and> ipMatch bd a = Some m \<and> e_type m = ''bot''" for a m
  proof -
    from h have p: "ipPhase bd ip = applyIpMatch m initResult"
      by (simp add: ipPhase_def)
    from h have b: "e_type m = ''bot''" by simp
    have "isBot (ipPhase bd ip)" unfolding p by (rule applyIpMatch_bot(1) [OF b])
    then have c: "?c = applyIpMatch m initResult"
      using p by (simp add: checkBot_ip_bot)
    show ?thesis unfolding c using applyIpMatch_bot [OF b] by (intro conjI)
  qed
  have 3: "isBot ?c \<longrightarrow> botType ?c \<noteq> None"
    using checkBot_botType by blast
  from 1 2 3 show ?thesis by blast
qed

theorem sentinel_scrubbing_witness:
  "map_option e_name (ipMatch (loadAllBotData exExact) ''5.6.7.8'') = Some ''Unknown''
   \<and> map_option e_category (ipMatch (loadAllBotData exExact) ''5.6.7.8'') = Some ''Uncategorized''
   \<and> isBot (checkBot noBotUA noLabel (loadAllBotData exExact) (Some ''5.6.7.8'') None)
   \<and> botName (checkBot noBotUA noLabel (loadAllBotData exExact) (Some ''5.6.7.8'') None) = None
   \<and> botType (checkBot noBotUA noLabel (loadAllBotData exExact) (Some ''5.6.7.8'') None) = Some ''Unknown''
   \<and> datacenterName (checkBot noBotUA noLabel (loadAllBotData exExact) (Some ''5.6.7.8'') None) \<noteq> Some ''Unknown''"
proof -
  let ?m = "\<lparr>e_range = ''5.6.7.8'', e_type = ''bot'', e_name = ''Unknown'',
             e_category = ''Uncategorized'', e_rating = ''good'', e_source = ''SomeList'',
             e_datacenter = None\<rparr>"
  have m: "ipMatch (loadAllBotData exExact) ''5.6.7.8'' = Some ?m" by code_simp
  have u: "''Unknown'' \<in> set untaggedNames" by (simp add: untaggedNames_def)
  from sentinel_scrubbing [of noBotUA noLabel "loadAllBotData exExact" "Some ''5.6.7.8''" None] m u
  show ?thesis by (auto simp: m)
qed

text \<open>
  A bot entry with a specific name and no category (so \<open>Uncategorized\<close>) keeps its name in
  the classification.
\<close>

theorem sentinel_counterexample:
  "map_option e_category (ipMatch (loadAllBotData exExact) ''1.2.3.4'') = Some ''Uncategorized''
   \<and> botName (checkBot noBotUA noLabel (loadAllBotData exExact) (Some ''1.2.3.4'') None) = Some ''EvilBot''"
  by code_simp

lemma normalizeLabel_GoodBot:
  "trim l = ''GoodBot'' \<Longrightarrow> \<not> includesStr ua ''LinkCheck by Siteimprove.com'' \<Longrightarrow>
     \<not> includesStr ua ''Sogou web spider'' \<Longrightarrow> \<not> includesStr ua ''Archive-It'' \<Longrightarrow>
     normalizeLabel ua l = ''GoodBot''"
  by (simp add: normalizeLabel_def Let_def startsWith_def)

lemma checkBot_ua:
  assumes "\<not> isBot (ipPhase bd ip)" "ua \<noteq> []" "isbot ua"
  shows "checkBot isbot isbotMatch bd ip (Some ua) =
           (ipPhase bd ip)\<lparr>isBot := True,
              botName := (case isbotMatch ua of
                            None \<Rightarrow> None
                          | Some l \<Rightarrow> if 2 \<le> length (filter isAlnum l)
                                      then (if normalizeLabel ua l = ''GoodBot'' then None
                                            else Some (normalizeLabel ua l))
                                      else None),
              botType := Some ''Crawler'', botSource := Some ''isbot (User Agent)'',
              isGoodBot := Some True\<rparr>"
proof -
  from ipPhase_bot_fields [OF assms(1)] have n: "botName (ipPhase bd ip) = None" by simp
  have e: "r\<lparr>botName := botName r\<rparr> = r" for r :: analysis by simp
  show ?thesis
  proof (cases "isbotMatch ua")
    case None
    with assms n show ?thesis
      by (simp add: checkBot_def Let_def)
  next
    case (Some l)
    show ?thesis
    proof (cases "2 \<le> length (filter isAlnum l)")
      case True
      then have "l \<noteq> []" by auto
      with True Some assms show ?thesis by (simp add: checkBot_def Let_def)
    next
      case False
      with Some assms n show ?thesis
        by (simp add: checkBot_def Let_def)
    qed
  qed
qed


text \<open>
  Claim C8, as the code has it. When the address lookup found no bot and the user agent
  is non-empty and matches the bot signatures, the classification is a bot of category
  \<open>Crawler\<close>, source \<open>isbot (User Agent)\<close>, and good. Its name is null when there is no
  matched label or the label has fewer than 2 alphanumeric characters; otherwise it is
  the normalised label, or null when that is \<open>GoodBot\<close>, which is the case for the label
  \<open>GoodBot\<close> unless the user agent contains one of the three override substrings.
\<close>

theorem user_agent_match:
  assumes "\<not> isBot (ipPhase bd ip)" and "ua \<noteq> []" and "isbot ua"
  shows "isBot (checkBot isbot isbotMatch bd ip (Some ua))
    \<and> botType (checkBot isbot isbotMatch bd ip (Some ua)) = Some ''Crawler''
    \<and> botSource (checkBot isbot isbotMatch bd ip (Some ua)) = Some ''isbot (User Agent)''
    \<and> isGoodBot (checkBot isbot isbotMatch bd ip (Some ua)) = Some True
    \<and> (isbotMatch ua = None \<longrightarrow> botName (checkBot isbot isbotMatch bd ip (Some ua)) = None)
    \<and> (\<forall>l. isbotMatch ua = Some l \<and> length (filter isAlnum l) < 2 \<longrightarrow>
          botName (checkBot isbot isbotMatch bd ip (Some ua)) = None)
    \<and> (\<forall>l. isbotMatch ua = Some l \<and> 2 \<le> length (filter isAlnum l) \<longrightarrow>
          botName (checkBot isbot isbotMatch bd ip (Some ua)) =
            (if normalizeLabel ua l = ''GoodBot'' then None else Some (normalizeLabel ua l)))
    \<and> (\<forall>l. isbotMatch ua = Some l \<and> trim l = ''GoodBot''
            \<and> \<not> includesStr ua ''LinkCheck by Siteimprove.com''
            \<and> \<not> includesStr ua ''Sogou web spider'' \<and> \<not> includesStr ua ''Archive-It'' \<longrightarrow>
          botName (checkBot isbot isbotMatch bd ip (Some ua)) = None)"
proof -
  have c: "checkBot isbot isbotMatch bd ip (Some ua) =
           (ipPhase bd ip)\<lparr>isBot := True,
              botName := (case isbotMatch ua of
                            None \<Rightarrow> None
                          | Some l \<Rightarrow> if 2 \<le> length (filter isAlnum l)
                                      then (if normalizeLabel ua l = ''GoodBot'' then None
                                            else Some (normalizeLabel ua l))
                                      else None),
              botType := Some ''Crawler'', botSource := Some ''isbot (User Agent)'',
              isGoodBot := Some True\<rparr>"
    using assms by (rule checkBot_ua)
  show ?thesis unfolding c by (auto simp: normalizeLabel_GoodBot)
qed

theorem user_agent_match_witness:
  "\<not> isBot (ipPhase emptyData None)
   \<and> isBot (checkBot anyBotUA (\<lambda>ua. Some ''GoodBot'') emptyData None (Some ''GoodBot/1.0''))
   \<and> botType (checkBot anyBotUA (\<lambda>ua. Some ''GoodBot'') emptyData None (Some ''GoodBot/1.0'')) = Some ''Crawler''
   \<and> botSource (checkBot anyBotUA (\<lambda>ua. Some ''GoodBot'') emptyData None (Some ''GoodBot/1.0''))
       = Some ''isbot (User Agent)''
   \<and> isGoodBot (checkBot anyBotUA (\<lambda>ua. Some ''GoodBot'') emptyData None (Some ''GoodBot/1.0'')) = Some True
   \<and> botName (checkBot anyBotUA (\<lambda>ua. Some ''GoodBot'') emptyData None (Some ''GoodBot/1.0'')) = None"
proof -
  have h: "\<not> isBot (ipPhase emptyData None)" by code_simp
  have u: "''GoodBot/1.0'' \<noteq> []" "anyBotUA ''GoodBot/1.0''" by (simp_all add: anyBotUA_def)
  have l: "trim ''GoodBot'' = ''GoodBot''
           \<and> \<not> includesStr ''GoodBot/1.0'' ''LinkCheck by Siteimprove.com''
           \<and> \<not> includesStr ''GoodBot/1.0'' ''Sogou web spider''
           \<and> \<not> includesStr ''GoodBot/1.0'' ''Archive-It''"
    by code_simp
  from user_agent_match [of emptyData None "''GoodBot/1.0''" anyBotUA "\<lambda>ua. Some ''GoodBot''", OF h u] l h
  show ?thesis by simp
qed

text \<open>
  The source is not the string \<open>User Agent\<close>, and the label \<open>GoodBot\<close> gives a name when
  an override applies.
\<close>

theorem user_agent_counterexample:
  "botSource (checkBot anyBotUA (\<lambda>ua. Some ''GoodBot'') emptyData None (Some ''GoodBot Archive-It''))
     \<noteq> Some ''User Agent''
   \<and> botName (checkBot anyBotUA (\<lambda>ua. Some ''GoodBot'') emptyData None (Some ''GoodBot Archive-It''))
     = Some ''Archive-It''"
  by code_simp

text \<open>
  Claim C4, as the code has it. When the classification of the current address is not a
  bot and the stored initial address is truthy and differs from the current one, the
  initial address is classified too. If that is a bot, it replaces the first result
  whole, datacenter fields included. If it is not, the result stays not a bot; it is a
  datacenter when either address is; a datacenter found only at the initial address
  brings its name; and a datacenter found at the current address is kept as it is.
  Otherwise the classification is that of the current address.
\<close>

theorem fallback_recheck:
  "(\<not> isBot (checkBot isbot isbotMatch bd (processedIp r) (userAgent r))
      \<and> jsTruthy (existingInitialIp r) \<and> existingInitialIp r \<noteq> strVal (processedIp r) \<longrightarrow>
     (let p = checkBot isbot isbotMatch bd (processedIp r) (userAgent r);
          q = checkBot isbot isbotMatch bd (asAddress (existingInitialIp r)) (userAgent r);
          c = classify isbot isbotMatch bd r
      in (isBot q \<longrightarrow> c = q)
       \<and> (\<not> isBot q \<longrightarrow> \<not> isBot c \<and> isDatacenter c = (isDatacenter p \<or> isDatacenter q))
       \<and> (isDatacenter q \<and> \<not> isDatacenter p \<longrightarrow> isDatacenter c \<and> datacenterName c = datacenterName q)
       \<and> (isDatacenter p \<and> \<not> isBot q \<longrightarrow> c = p)))
   \<and> (\<not> (\<not> isBot (checkBot isbot isbotMatch bd (processedIp r) (userAgent r))
          \<and> jsTruthy (existingInitialIp r) \<and> existingInitialIp r \<noteq> strVal (processedIp r)) \<longrightarrow>
       classify isbot isbotMatch bd r = checkBot isbot isbotMatch bd (processedIp r) (userAgent r))"
  by (auto simp: classify_def Let_def)

theorem fallback_recheck_witness:
  "classify noBotUA noLabel (loadAllBotData exExact) (exRow (Some ''1.1.1.1'') (JStr ''2.2.2.2'') JNull)
     = checkBot noBotUA noLabel (loadAllBotData exExact) (Some ''2.2.2.2'') None
   \<and> isDatacenter (classify noBotUA noLabel (loadAllBotData exExact) (exRow (Some ''9.9.9.9'') (JStr ''1.1.1.1'') JNull))
   \<and> datacenterName (classify noBotUA noLabel (loadAllBotData exExact) (exRow (Some ''9.9.9.9'') (JStr ''1.1.1.1'') JNull))
       = Some ''Amazon AWS''
   \<and> classify noBotUA noLabel (loadAllBotData exExact) (exRow (Some ''1.1.1.1'') (JStr ''9.9.9.9'') JNull)
     = checkBot noBotUA noLabel (loadAllBotData exExact) (Some ''1.1.1.1'') None
   \<and> classify noBotUA noLabel (loadAllBotData exExact) (exRow (Some ''1.1.1.1'') JNull JNull)
     = checkBot noBotUA noLabel (loadAllBotData exExact) (Some ''1.1.1.1'') None"
proof -
  let ?bd = "loadAllBotData exExact"
  let ?c = "checkBot noBotUA noLabel ?bd"
  have r: "processedIp (exRow ip i l) = ip" "userAgent (exRow ip i l) = None"
    "existingInitialIp (exRow ip i l) = i" for ip i l
    by (simp_all add: exRow_def)
  have p1: "\<not> isBot (?c (Some ''1.1.1.1'') None)" "isDatacenter (?c (Some ''1.1.1.1'') None)"
    by code_simp+
  have p2: "isBot (?c (Some ''2.2.2.2'') None)" by code_simp
  have p9: "\<not> isBot (?c (Some ''9.9.9.9'') None)" "\<not> isDatacenter (?c (Some ''9.9.9.9'') None)"
    by code_simp+
  have d1: "datacenterName (?c (Some ''1.1.1.1'') None) = Some ''Amazon AWS''" by code_simp
  have t: "jsTruthy (JStr ''2.2.2.2'')" "jsTruthy (JStr ''1.1.1.1'')" "jsTruthy (JStr ''9.9.9.9'')"
    "\<not> jsTruthy JNull"
    by (simp_all add: jsTruthy_def)
  have v: "strVal (Some s) = JStr s" "asAddress (JStr s) = Some s" for s
    by (simp_all add: strVal_def asAddress_def)
  from fallback_recheck [of noBotUA noLabel ?bd "exRow (Some ''1.1.1.1'') (JStr ''2.2.2.2'') JNull"]
    p1 p2 t
  have 1: "classify noBotUA noLabel ?bd (exRow (Some ''1.1.1.1'') (JStr ''2.2.2.2'') JNull)
           = ?c (Some ''2.2.2.2'') None"
    by (simp add: r v Let_def)
  from fallback_recheck [of noBotUA noLabel ?bd "exRow (Some ''9.9.9.9'') (JStr ''1.1.1.1'') JNull"]
    p1 p9 t d1
  have 2: "isDatacenter (classify noBotUA noLabel ?bd (exRow (Some ''9.9.9.9'') (JStr ''1.1.1.1'') JNull))
           \<and> datacenterName (classify noBotUA noLabel ?bd (exRow (Some ''9.9.9.9'') (JStr ''1.1.1.1'') JNull))
               = Some ''Amazon AWS''"
    by (simp add: r v Let_def)
  from fallback_recheck [of noBotUA noLabel ?bd "exRow (Some ''1.1.1.1'') (JStr ''9.9.9.9'') JNull"]
    p1 p9 t
  have 3: "classify noBotUA noLabel ?bd (exRow (Some ''1.1.1.1'') (JStr ''9.9.9.9'') JNull)
           = ?c (Some ''1.1.1.1'') None"
    by (simp add: r v Let_def)
  from fallback_recheck [of noBotUA noLabel ?bd "exRow (Some ''1.1.1.1'') JNull JNull"] t
  have 4: "classify noBotUA noLabel ?bd (exRow (Some ''1.1.1.1'') JNull JNull)
           = ?c (Some ''1.1.1.1'') None"
    by (simp add: r)
  from 1 2 3 4 show ?thesis by blast
qed

text \<open>
  A datacenter found at the current address is lost when the initial address is a bot
  outside any datacenter.
\<close>

theorem fallback_counterexample:
  "isDatacenter (checkBot noBotUA noLabel (loadAllBotData exExact) (Some ''1.1.1.1'') None)
   \<and> \<not> isDatacenter (classify noBotUA noLabel (loadAllBotData exExact)
                         (exRow (Some ''1.1.1.1'') (JStr ''2.2.2.2'') JNull))"
  by code_simp

subsection \<open>The patch\<close>

lemma map_of_filter_None: "map_of xs k = None \<Longrightarrow> map_of (filter P xs) k = None"
  by (induction xs) (auto split: if_splits)

lemma map_of_filter_distinct:
  assumes "distinct (map fst xs)"
  shows "map_of (filter P xs) k = Option.bind (map_of xs k) (\<lambda>v. if P (k, v) then Some v else None)"
  using assms
proof (induction xs)
  case Nil
  then show ?case by simp
next
  case (Cons x xs)
  obtain k' v' where x: "x = (k', v')" by (cases x)
  show ?case
  proof (cases "k' = k")
    case True
    with Cons.prems x have "map_of xs k = None"
      by (simp add: map_of_eq_None_iff)
    with True x show ?thesis by (simp add: map_of_filter_None)
  next
    case False
    with Cons x show ?thesis by simp
  qed
qed

lemma distinct_props: "distinct (map fst (props a r))"
  by (auto simp: props_def)

lemma props_fixed:
  "map_of (props a r) ''is_bot'' = Some (JBool (isBot a))"
  "map_of (props a r) ''is_good_bot'' = Some (if isBot a then JBool (isGoodBot a = Some True) else JNull)"
  "map_of (props a r) ''bot_name'' = Some (orNull (botName a))"
  "map_of (props a r) ''bot_type'' = Some (orNull (botType a))"
  "map_of (props a r) ''bot_identification_source'' = Some (orNull (botSource a))"
  "map_of (props a r) ''datacenter'' = Some (orNull (datacenterName a))"
  by (simp_all add: props_def)

lemma props_latest_ip:
  "map_of (props a r) ''$latest_ip'' =
     (if truthy (processedIp r) \<and> strVal (processedIp r) \<noteq> existingLatestIp r
      then Some (strVal (processedIp r)) else None)"
  by (simp add: props_def)

lemma props_initial_ip:
  "map_of (props a r) ''$initial_ip'' =
     (if truthy (processedIp r) \<and> strVal (processedIp r) \<noteq> existingLatestIp r
         \<and> \<not> jsTruthy (existingInitialIp r)
      then Some (strVal (processedIp r)) else None)"
  by (simp add: props_def)

lemma props_latest_nonproxy_ip:
  "map_of (props a r) ''$latest_nonproxy_ip'' =
     (if \<not> isBot a \<and> \<not> isDatacenter a \<and> truthy (processedIp r)
         \<and> \<not> (jsTruthy (existingLatestNonProxyIp r) \<and> existingLatestNonProxyIp r = strVal (processedIp r))
      then Some (strVal (processedIp r)) else None)"
  by (auto simp: props_def)

lemmas props_ip = props_latest_ip props_initial_ip props_latest_nonproxy_ip

lemma strVal_truthy: "truthy v \<Longrightarrow> strVal v \<noteq> JNull \<and> jsTruthy (strVal v)"
  by (cases v) (auto simp: truthy_def strVal_def jsTruthy_def)

lemma patch_lookup:
  "map_of (filteredProps a r) k =
     Option.bind (map_of (props a r) k) (\<lambda>v. if keepProp r (k, v) then Some v else None)"
  unfolding filteredProps_def by (rule map_of_filter_distinct [OF distinct_props])

lemma patch_is_bot:
  "map_of (filteredProps a r) ''is_bot'' = (if isBot a = isBotAlready r then None else Some (JBool (isBot a)))"
  by (simp add: patch_lookup props_fixed keepProp_def)

lemma patch_is_good_bot:
  "map_of (filteredProps a r) ''is_good_bot'' =
     (if isBot a \<and> (isGoodBot a = Some True) \<noteq> isGoodAlready r then Some (JBool (isGoodBot a = Some True)) else None)"
  by (simp add: patch_lookup props_fixed keepProp_def)

lemma patch_datacenter:
  "map_of (filteredProps a r) ''datacenter'' =
     (if orNull (datacenterName a) \<noteq> JNull \<and> orNull (datacenterName a) \<noteq> existingDatacenter r
      then Some (orNull (datacenterName a)) else None)"
  by (simp add: patch_lookup props_fixed keepProp_def)

lemma patch_latest_ip:
  "map_of (filteredProps a r) ''$latest_ip'' =
     (if truthy (processedIp r) \<and> strVal (processedIp r) \<noteq> existingLatestIp r
      then Some (strVal (processedIp r)) else None)"
  by (simp add: patch_lookup props_ip keepProp_def strVal_truthy)

lemma patch_initial_ip:
  "map_of (filteredProps a r) ''$initial_ip'' =
     (if truthy (processedIp r) \<and> strVal (processedIp r) \<noteq> existingLatestIp r
         \<and> \<not> jsTruthy (existingInitialIp r)
      then Some (strVal (processedIp r)) else None)"
  using strVal_truthy [of "processedIp r"]
  by (auto simp: patch_lookup props_ip keepProp_def)

lemma patch_latest_nonproxy_ip:
  "map_of (filteredProps a r) ''$latest_nonproxy_ip'' =
     (if \<not> isBot a \<and> \<not> isDatacenter a \<and> truthy (processedIp r)
         \<and> existingLatestNonProxyIp r \<noteq> strVal (processedIp r)
      then Some (strVal (processedIp r)) else None)"
  using strVal_truthy [of "processedIp r"]
  by (auto simp: patch_lookup props_ip keepProp_def)

lemma patch_bot_fields:
  "map_of (filteredProps a r) ''bot_name'' = (if orNull (botName a) = JNull then None else Some (orNull (botName a)))"
  "map_of (filteredProps a r) ''bot_type'' = (if orNull (botType a) = JNull then None else Some (orNull (botType a)))"
  "map_of (filteredProps a r) ''bot_identification_source'' = (if orNull (botSource a) = JNull then None else Some (orNull (botSource a)))"
  by (simp_all add: patch_lookup props_fixed keepProp_def)

lemma filteredProps_nonnull: "(k, v) \<in> set (filteredProps a r) \<Longrightarrow> v \<noteq> JNull"
  by (auto simp: filteredProps_def keepProp_def split: if_splits)

lemma props_keys:
  "map_of (props a r) k = Some v \<Longrightarrow>
     k \<in> {''is_bot'', ''is_good_bot'', ''bot_name'', ''bot_type'', ''bot_identification_source'',
          ''datacenter'', ''$initial_ip'', ''$latest_ip'', ''$latest_nonproxy_ip''}"
proof -
  assume "map_of (props a r) k = Some v"
  then have "(k, v) \<in> set (props a r)" by (rule map_of_SomeD)
  then show ?thesis by (auto simp: props_def split: if_splits)
qed

lemma keys_disj:
  "map_of (props a r) k = Some v \<Longrightarrow>
     k = ''is_bot'' \<or> k = ''is_good_bot'' \<or> k = ''bot_name'' \<or> k = ''bot_type'' \<or> k = ''bot_identification_source''
     \<or> k = ''datacenter'' \<or> k = ''$initial_ip'' \<or> k = ''$latest_ip'' \<or> k = ''$latest_nonproxy_ip''"
  using props_keys [of a r k v] by (simp only: insert_iff empty_iff HOL.simp_thms)

lemma patch_other_keys:
  assumes "k \<noteq> ''is_bot''" "k \<noteq> ''is_good_bot''" "k \<noteq> ''bot_name''" "k \<noteq> ''bot_type''"
    "k \<noteq> ''bot_identification_source''" "k \<noteq> ''datacenter''" "k \<noteq> ''$initial_ip''"
    "k \<noteq> ''$latest_ip''" "k \<noteq> ''$latest_nonproxy_ip''"
  shows "map_of (filteredProps a r) k = None"
proof (cases "map_of (props a r) k")
  case None
  then show ?thesis by (simp add: patch_lookup)
next
  case (Some v)
  from keys_disj [OF Some] assms show ?thesis by argo
qed

lemma fst_plan: "fst (plan a r) = filteredProps a r"
  by (simp add: plan_def Let_def)

lemma plan_event_set: "snd (plan a r) = Some e \<Longrightarrow> ev_set e = filteredProps a r"
  by (auto simp: plan_def Let_def split: if_splits)

lemma plan_event:
  "filteredProps a r \<noteq> [] \<Longrightarrow> \<exists>e. snd (plan a r) = Some e \<and> ev_set e = filteredProps a r"
  by (simp add: plan_def Let_def)

lemma plan_empty: "\<not> isBot a \<Longrightarrow> filteredProps a r = [] \<Longrightarrow> plan a r = ([], None)"
  by (simp add: plan_def Let_def)


text \<open>
  Claim C9, as the code has it. \<open>$initial_ip\<close> is in the patch exactly when the record has
  a current address that differs from the stored latest address and has no stored
  initial address; \<open>$latest_ip\<close> is in the patch exactly when the record has a current
  address that differs from the stored latest address. Both carry the current address.
\<close>

theorem address_properties:
  "map_of (fst (plan a r)) ''$initial_ip'' =
     (if truthy (processedIp r) \<and> strVal (processedIp r) \<noteq> existingLatestIp r
         \<and> \<not> jsTruthy (existingInitialIp r)
      then Some (strVal (processedIp r)) else None)
   \<and> map_of (fst (plan a r)) ''$latest_ip'' =
     (if truthy (processedIp r) \<and> strVal (processedIp r) \<noteq> existingLatestIp r
      then Some (strVal (processedIp r)) else None)"
  by (simp only: fst_plan patch_initial_ip patch_latest_ip)

theorem address_properties_witness:
  "map_of (fst (plan initResult (exRow (Some ''1.2.3.4'') JNull JNull))) ''$initial_ip'' = Some (JStr ''1.2.3.4'')
   \<and> map_of (fst (plan initResult (exRow (Some ''1.2.3.4'') (JStr ''9.9.9.9'') (JStr ''1.2.3.4'')))) ''$latest_ip''
       = None"
proof -
  have r: "processedIp (exRow ip i l) = ip" "existingLatestIp (exRow ip i l) = l"
    "existingInitialIp (exRow ip i l) = i" for ip i l
    by (simp_all add: exRow_def)
  from address_properties [of initResult "exRow (Some ''1.2.3.4'') JNull JNull"]
    address_properties [of initResult "exRow (Some ''1.2.3.4'') (JStr ''9.9.9.9'') (JStr ''1.2.3.4'')"]
  show ?thesis by (simp add: r truthy_def strVal_def jsTruthy_def)
qed

text \<open>
  A record with no stored initial address gets none when its current address equals the
  stored latest address, or when it has no current address.
\<close>

theorem initial_address_counterexample:
  "\<not> jsTruthy (existingInitialIp (exRow (Some ''1.2.3.4'') JNull (JStr ''1.2.3.4'')))
   \<and> map_of (fst (processRow noBotUA noLabel emptyData (exRow (Some ''1.2.3.4'') JNull (JStr ''1.2.3.4''))))
        ''$initial_ip'' = None
   \<and> \<not> jsTruthy (existingInitialIp (exRow None JNull (JStr ''1.2.3.4'')))
   \<and> fst (processRow noBotUA noLabel emptyData (exRow None JNull (JStr ''1.2.3.4''))) = []"
  by code_simp

text \<open>
  Claim C10. No property of the patch is null, and the event carries exactly the patch;
  a candidate property whose value is null is absent from the patch; so storing the
  patch never replaces a stored value that is not null by null.
\<close>

theorem patch_never_null:
  "(\<forall>kv \<in> set (fst (plan a r)). snd kv \<noteq> JNull)
   \<and> (\<forall>e. snd (plan a r) = Some e \<longrightarrow> ev_set e = fst (plan a r))
   \<and> (\<forall>k. map_of (props a r) k = Some JNull \<longrightarrow> map_of (fst (plan a r)) k = None)
   \<and> (\<forall>k old. old \<noteq> JNull \<longrightarrow> stored (fst (plan a r)) k old \<noteq> JNull)"
proof -
  have 1: "\<forall>kv \<in> set (filteredProps a r). snd kv \<noteq> JNull"
    using filteredProps_nonnull [of _ _ a r] by auto
  have 2: "\<forall>e. snd (plan a r) = Some e \<longrightarrow> ev_set e = filteredProps a r"
    using plan_event_set by blast
  have 3: "map_of (filteredProps a r) k = None" if "map_of (props a r) k = Some JNull" for k
    using that by (simp add: patch_lookup keepProp_def)
  have 4: "stored (filteredProps a r) k old \<noteq> JNull" if "old \<noteq> JNull" for k old
  proof (cases "map_of (filteredProps a r) k")
    case None
    with that show ?thesis by (simp add: stored_def)
  next
    case (Some v)
    then have "(k, v) \<in> set (filteredProps a r)" by (rule map_of_SomeD)
    then have "v \<noteq> JNull" by (rule filteredProps_nonnull)
    with Some show ?thesis by (simp add: stored_def)
  qed
  from 1 2 3 4 show ?thesis by (simp only: fst_plan) blast
qed

theorem patch_never_null_witness:
  "list_all (\<lambda>kv. snd kv \<noteq> JNull) (fst (plan initResult (exRow (Some ''1.2.3.4'') JNull JNull)))
   \<and> fst (plan initResult (exRow (Some ''1.2.3.4'') JNull JNull)) \<noteq> []
   \<and> map_of (props initResult (exRow (Some ''1.2.3.4'') JNull JNull)) ''bot_name'' = Some JNull
   \<and> map_of (fst (plan initResult (exRow (Some ''1.2.3.4'') JNull JNull))) ''bot_name'' = None
   \<and> stored (fst (plan initResult (exRow (Some ''1.2.3.4'') JNull JNull))) ''datacenter'' (JStr ''Amazon AWS'') \<noteq> JNull"
proof -
  let ?r = "exRow (Some ''1.2.3.4'') JNull JNull"
  have n: "fst (plan initResult ?r) \<noteq> []" by code_simp
  have b: "map_of (props initResult ?r) ''bot_name'' = Some JNull" by code_simp
  from patch_never_null [of initResult ?r] n b show ?thesis
    by (simp add: list_all_iff)
qed

subsection \<open>Running a record again\<close>

lemma second_unchanged:
  "processedIp (secondRow a r) = processedIp r" "userAgent (secondRow a r) = userAgent r"
  "distinctId (secondRow a r) = distinctId r"
  by (simp_all add: secondRow_def applyPatch_def)

lemma second_isBotAlready: "isBotAlready (secondRow a r) = isBot a"
  by (auto simp: secondRow_def applyPatch_def stored_def isBotAlready_def patch_is_bot)

lemma second_isGoodAlready: "isBot a \<Longrightarrow> isGoodAlready (secondRow a r) = (isGoodBot a = Some True)"
  by (auto simp: secondRow_def applyPatch_def stored_def isGoodAlready_def patch_is_good_bot)

lemma second_datacenter:
  "orNull (datacenterName a) \<noteq> JNull \<Longrightarrow> existingDatacenter (secondRow a r) = orNull (datacenterName a)"
  by (simp add: secondRow_def applyPatch_def stored_def patch_datacenter)

lemma second_latest_ip:
  "truthy (processedIp r) \<Longrightarrow> existingLatestIp (secondRow a r) = strVal (processedIp r)"
  by (simp add: secondRow_def applyPatch_def stored_def patch_latest_ip)

lemma second_latest_nonproxy_ip:
  "\<not> isBot a \<Longrightarrow> \<not> isDatacenter a \<Longrightarrow> truthy (processedIp r) \<Longrightarrow>
     existingLatestNonProxyIp (secondRow a r) = strVal (processedIp r)"
  by (simp add: secondRow_def applyPatch_def stored_def patch_latest_nonproxy_ip)

lemma second_initial_ip:
  "existingInitialIp (secondRow a r) =
     (if truthy (processedIp r) \<and> strVal (processedIp r) \<noteq> existingLatestIp r
         \<and> \<not> jsTruthy (existingInitialIp r)
      then strVal (processedIp r) else existingInitialIp r)"
  by (simp add: secondRow_def applyPatch_def stored_def patch_initial_ip)

lemma second_patch_is_bot: "map_of (filteredProps a (secondRow a r)) ''is_bot'' = None"
  by (simp add: patch_is_bot second_isBotAlready)

lemma second_patch_is_good_bot: "map_of (filteredProps a (secondRow a r)) ''is_good_bot'' = None"
proof (cases "isBot a")
  case True
  from second_isGoodAlready [OF True, of r] show ?thesis
    by (simp only: patch_is_good_bot) simp
next
  case False
  then show ?thesis by (simp only: patch_is_good_bot) simp
qed

lemma second_patch_datacenter: "map_of (filteredProps a (secondRow a r)) ''datacenter'' = None"
proof (cases "orNull (datacenterName a) = JNull")
  case True
  then show ?thesis by (simp add: patch_datacenter)
next
  case False
  from second_datacenter [OF False, of r] show ?thesis by (simp add: patch_datacenter)
qed

lemma second_patch_latest_ip: "map_of (filteredProps a (secondRow a r)) ''$latest_ip'' = None"
  by (simp add: patch_latest_ip second_unchanged second_latest_ip)

lemma second_patch_initial_ip: "map_of (filteredProps a (secondRow a r)) ''$initial_ip'' = None"
  by (simp add: patch_initial_ip second_unchanged second_latest_ip)

lemma second_patch_latest_nonproxy_ip:
  "map_of (filteredProps a (secondRow a r)) ''$latest_nonproxy_ip'' = None"
proof (cases "\<not> isBot a \<and> \<not> isDatacenter a \<and> truthy (processedIp r)")
  case True
  then have "existingLatestNonProxyIp (secondRow a r) = strVal (processedIp r)"
    by (simp add: second_latest_nonproxy_ip)
  then show ?thesis by (simp add: patch_latest_nonproxy_ip second_unchanged)
next
  case False
  then show ?thesis by (auto simp: patch_latest_nonproxy_ip second_unchanged)
qed

lemma second_patch_bot_fields:
  "map_of (filteredProps a (secondRow a r)) ''bot_name'' = map_of (filteredProps a r) ''bot_name''"
  "map_of (filteredProps a (secondRow a r)) ''bot_type'' = map_of (filteredProps a r) ''bot_type''"
  "map_of (filteredProps a (secondRow a r)) ''bot_identification_source'' =
     map_of (filteredProps a r) ''bot_identification_source''"
  by (simp_all add: patch_bot_fields)

lemma botKey_simps:
  "botKey ''bot_name''" "botKey ''bot_type''" "botKey ''bot_identification_source''"
  "\<not> botKey ''is_bot''" "\<not> botKey ''is_good_bot''" "\<not> botKey ''datacenter''"
  "\<not> botKey ''$initial_ip''" "\<not> botKey ''$latest_ip''" "\<not> botKey ''$latest_nonproxy_ip''"
  by (simp_all add: botKey_def)

lemma second_patch:
  "map_of (filteredProps a (secondRow a r)) k = (if botKey k then map_of (filteredProps a r) k else None)"
proof -
  consider "k = ''is_bot''" | "k = ''is_good_bot''" | "k = ''bot_name''" | "k = ''bot_type''"
    | "k = ''bot_identification_source''" | "k = ''datacenter''" | "k = ''$initial_ip''"
    | "k = ''$latest_ip''" | "k = ''$latest_nonproxy_ip''"
    | "k \<noteq> ''is_bot''" "k \<noteq> ''is_good_bot''" "k \<noteq> ''bot_name''" "k \<noteq> ''bot_type''"
      "k \<noteq> ''bot_identification_source''" "k \<noteq> ''datacenter''" "k \<noteq> ''$initial_ip''"
      "k \<noteq> ''$latest_ip''" "k \<noteq> ''$latest_nonproxy_ip''"
    by argo
  then show ?thesis
  proof cases
    case 1
    show ?thesis unfolding 1 by (simp only: second_patch_is_bot botKey_simps if_False)
  next
    case 2
    show ?thesis unfolding 2 by (simp only: second_patch_is_good_bot botKey_simps if_False)
  next
    case 3
    show ?thesis unfolding 3 by (simp only: second_patch_bot_fields botKey_simps if_True)
  next
    case 4
    show ?thesis unfolding 4 by (simp only: second_patch_bot_fields botKey_simps if_True)
  next
    case 5
    show ?thesis unfolding 5 by (simp only: second_patch_bot_fields botKey_simps if_True)
  next
    case 6
    show ?thesis unfolding 6 by (simp only: second_patch_datacenter botKey_simps if_False)
  next
    case 7
    show ?thesis unfolding 7 by (simp only: second_patch_initial_ip botKey_simps if_False)
  next
    case 8
    show ?thesis unfolding 8 by (simp only: second_patch_latest_ip botKey_simps if_False)
  next
    case 9
    show ?thesis unfolding 9 by (simp only: second_patch_latest_nonproxy_ip botKey_simps if_False)
  next
    case 10
    from patch_other_keys [OF 10] have "map_of (filteredProps a (secondRow a r)) k = None" .
    moreover from 10 have "\<not> botKey k" unfolding botKey_def by argo
    ultimately show ?thesis by (simp only: if_False)
  qed
qed

lemma classify_second:
  "classify isbot isbotMatch bd (secondRow a r) = classify isbot isbotMatch bd r"
proof -
  let ?p = "checkBot isbot isbotMatch bd (processedIp r) (userAgent r)"
  show ?thesis
  proof (cases "truthy (processedIp r) \<and> strVal (processedIp r) \<noteq> existingLatestIp r
         \<and> \<not> jsTruthy (existingInitialIp r)")
    case True
    then have i: "existingInitialIp (secondRow a r) = strVal (processedIp r)"
      by (simp add: second_initial_ip)
    from True show ?thesis
      by (simp add: classify_def Let_def i second_unchanged)
  next
    case False
    then have i: "existingInitialIp (secondRow a r) = existingInitialIp r"
      by (simp only: second_initial_ip if_False)
    show ?thesis
      by (simp only: classify_def i second_unchanged)
  qed
qed

lemma second_patch_empty:
  assumes "botName a = None" "botType a = None" "botSource a = None"
  shows "filteredProps a (secondRow a r) = []"
proof -
  have "map_of (filteredProps a (secondRow a r)) k = None" for k
  proof (cases "botKey k")
    case True
    then consider "k = ''bot_name''" | "k = ''bot_type''" | "k = ''bot_identification_source''"
      unfolding botKey_def by argo
    then have "map_of (filteredProps a r) k = None"
    proof cases
      case 1
      show ?thesis unfolding 1 using assms by (simp add: patch_bot_fields orNull_def)
    next
      case 2
      show ?thesis unfolding 2 using assms by (simp add: patch_bot_fields orNull_def)
    next
      case 3
      show ?thesis unfolding 3 using assms by (simp add: patch_bot_fields orNull_def)
    qed
    with True show ?thesis by (simp only: second_patch if_True)
  next
    case False
    then show ?thesis by (simp only: second_patch if_False)
  qed
  then have "map_of (filteredProps a (secondRow a r)) = Map.empty" by (rule ext)
  then show ?thesis by (simp only: map_of_eq_empty_iff)
qed


lemma truthy_orNull: "truthy v \<Longrightarrow> \<exists>t. t \<noteq> [] \<and> v = Some t \<and> orNull v = JStr t"
  by (cases v) (auto simp: truthy_def orNull_def)

text \<open>
  Claim C2, as the code has it. When the stored state is the one the patch of a first run
  leaves, the next run classifies the record the same, and its patch holds none of the
  six properties that are compared with the stored state (\<open>is_bot\<close>, \<open>is_good_bot\<close>,
  \<open>datacenter\<close>, \<open>$initial_ip\<close>, \<open>$latest_ip\<close>, \<open>$latest_nonproxy_ip\<close>) and no other property
  but \<open>bot_name\<close>, \<open>bot_type\<close> and \<open>bot_identification_source\<close>, which it holds exactly as
  the first patch did. For a record that is not classified as a bot the second patch is
  empty and no event is pushed. For a record classified as a bot the second patch holds
  \<open>bot_type\<close> and \<open>bot_identification_source\<close> again, both non-empty strings, and
  \<open>bot_name\<close> when the bot has a name, and an event with this patch is pushed again.
\<close>

theorem rerun_converges:
  "let a = classify isbot isbotMatch bd r;
       first = processRow isbot isbotMatch bd r;
       r' = applyPatch (fst first) r;
       second = processRow isbot isbotMatch bd r'
   in classify isbot isbotMatch bd r' = a
    \<and> (\<forall>k. map_of (fst second) k = (if botKey k then map_of (fst first) k else None))
    \<and> list_all (\<lambda>k. map_of (fst second) k = None)
          [''is_bot'', ''is_good_bot'', ''datacenter'', ''$initial_ip'', ''$latest_ip'', ''$latest_nonproxy_ip'']
    \<and> (\<not> isBot a \<longrightarrow> second = ([], None))
    \<and> (isBot a \<longrightarrow>
          (\<exists>t. t \<noteq> [] \<and> botType a = Some t \<and> map_of (fst second) ''bot_type'' = Some (JStr t))
        \<and> (\<exists>t. t \<noteq> [] \<and> botSource a = Some t
                \<and> map_of (fst second) ''bot_identification_source'' = Some (JStr t))
        \<and> map_of (fst second) ''bot_name'' = (if truthy (botName a) then Some (orNull (botName a)) else None)
        \<and> (\<exists>e. snd second = Some e \<and> ev_set e = fst second))"
proof -
  define a where "a = classify isbot isbotMatch bd r"
  define second where "second = processRow isbot isbotMatch bd (applyPatch (fst (processRow isbot isbotMatch bd r)) r)"
  have r': "applyPatch (fst (processRow isbot isbotMatch bd r)) r = secondRow a r"
    by (simp only: processRow_def fst_plan secondRow_def a_def)
  have c: "classify isbot isbotMatch bd (secondRow a r) = a"
    unfolding a_def by (rule classify_second)
  have sec: "second = plan a (secondRow a r)"
  proof -
    have "second = processRow isbot isbotMatch bd (secondRow a r)"
      unfolding second_def by (simp only: r')
    also have "\<dots> = plan (classify isbot isbotMatch bd (secondRow a r)) (secondRow a r)"
      by (simp only: processRow_def)
    also have "\<dots> = plan a (secondRow a r)" by (simp only: c)
    finally show ?thesis .
  qed
  then have fs: "fst second = filteredProps a (secondRow a r)" by (simp only: fst_plan)
  have ff: "fst (processRow isbot isbotMatch bd r) = filteredProps a r"
    by (simp only: processRow_def fst_plan a_def)
  have 1: "classify isbot isbotMatch bd (applyPatch (fst (processRow isbot isbotMatch bd r)) r) = a"
    unfolding r' by (rule c)
  have 2: "map_of (fst second) k = (if botKey k then map_of (fst (processRow isbot isbotMatch bd r)) k else None)" for k
    unfolding fs ff by (rule second_patch)
  have 3: "list_all (\<lambda>k. map_of (fst second) k = None)
          [''is_bot'', ''is_good_bot'', ''datacenter'', ''$initial_ip'', ''$latest_ip'', ''$latest_nonproxy_ip'']"
    unfolding fs
    by (simp only: list.pred_inject second_patch_is_bot second_patch_is_good_bot second_patch_datacenter
          second_patch_initial_ip second_patch_latest_ip second_patch_latest_nonproxy_ip HOL.simp_thms)
  have 4: "second = ([], None)" if n: "\<not> isBot a"
  proof -
    from classify_bot_fields [OF n [unfolded a_def]]
    have "filteredProps a (secondRow a r) = []"
      by (intro second_patch_empty) (simp_all add: a_def)
    with n have "plan a (secondRow a r) = ([], None)" by (intro plan_empty)
    with sec show ?thesis by simp
  qed
  have 5: "(\<exists>t. t \<noteq> [] \<and> botType a = Some t \<and> map_of (fst second) ''bot_type'' = Some (JStr t))
        \<and> (\<exists>t. t \<noteq> [] \<and> botSource a = Some t
                \<and> map_of (fst second) ''bot_identification_source'' = Some (JStr t))
        \<and> map_of (fst second) ''bot_name'' = (if truthy (botName a) then Some (orNull (botName a)) else None)
        \<and> (\<exists>e. snd second = Some e \<and> ev_set e = fst second)" if b: "isBot a"
  proof -
    from classify_bot_labels [OF b [unfolded a_def]]
    have "truthy (botType a)" "truthy (botSource a)" by (simp_all add: a_def)
    then obtain t u where t: "t \<noteq> []" "botType a = Some t" "orNull (botType a) = JStr t"
      and u: "u \<noteq> []" "botSource a = Some u" "orNull (botSource a) = JStr u"
      by (blast dest: truthy_orNull)
    have pt: "map_of (fst second) ''bot_type'' = Some (JStr t)"
      unfolding fs by (simp add: patch_bot_fields t(3))
    have pu: "map_of (fst second) ''bot_identification_source'' = Some (JStr u)"
      unfolding fs by (simp add: patch_bot_fields u(3))
    have pn: "map_of (fst second) ''bot_name'' = (if truthy (botName a) then Some (orNull (botName a)) else None)"
      unfolding fs by (cases "botName a") (simp_all add: patch_bot_fields truthy_def orNull_def)
    from pt have "fst second \<noteq> []" by auto
    then have "\<exists>e. snd second = Some e \<and> ev_set e = fst second"
      unfolding fs unfolding sec by (rule plan_event)
    with t u pt pu pn show ?thesis by blast
  qed
  from 1 2 3 4 5 show ?thesis
    unfolding Let_def a_def [symmetric] second_def [symmetric] by blast
qed

theorem rerun_converges_witness:
  "\<not> isBot (classify noBotUA noLabel (loadAllBotData exExact) (exRow (Some ''1.1.1.1'') JNull JNull))
   \<and> fst (processRow noBotUA noLabel (loadAllBotData exExact) (exRow (Some ''1.1.1.1'') JNull JNull))
       = [(''datacenter'', JStr ''Amazon AWS''), (''$initial_ip'', JStr ''1.1.1.1''),
          (''$latest_ip'', JStr ''1.1.1.1'')]
   \<and> processRow noBotUA noLabel (loadAllBotData exExact)
        (applyPatch (fst (processRow noBotUA noLabel (loadAllBotData exExact) (exRow (Some ''1.1.1.1'') JNull JNull)))
           (exRow (Some ''1.1.1.1'') JNull JNull))
       = ([], None)
   \<and> isBot (classify noBotUA noLabel (loadAllBotData exExact) (exRow (Some ''2.2.2.2'') JNull JNull))
   \<and> botType (classify noBotUA noLabel (loadAllBotData exExact) (exRow (Some ''2.2.2.2'') JNull JNull))
       = Some ''Malicious''
   \<and> map_of (fst (processRow noBotUA noLabel (loadAllBotData exExact)
        (applyPatch (fst (processRow noBotUA noLabel (loadAllBotData exExact) (exRow (Some ''2.2.2.2'') JNull JNull)))
           (exRow (Some ''2.2.2.2'') JNull JNull)))) ''bot_type''
       = Some (JStr ''Malicious'')
   \<and> map_of (fst (processRow noBotUA noLabel (loadAllBotData exExact)
        (applyPatch (fst (processRow noBotUA noLabel (loadAllBotData exExact) (exRow (Some ''2.2.2.2'') JNull JNull)))
           (exRow (Some ''2.2.2.2'') JNull JNull)))) ''is_bot''
       = None"
proof -
  let ?bd = "loadAllBotData exExact"
  let ?dc = "exRow (Some ''1.1.1.1'') JNull JNull"
  let ?bad = "exRow (Some ''2.2.2.2'') JNull JNull"
  have h: "\<not> isBot (classify noBotUA noLabel ?bd ?dc)" by code_simp
  have f: "fst (processRow noBotUA noLabel ?bd ?dc)
       = [(''datacenter'', JStr ''Amazon AWS''), (''$initial_ip'', JStr ''1.1.1.1''),
          (''$latest_ip'', JStr ''1.1.1.1'')]"
    by code_simp
  have b: "isBot (classify noBotUA noLabel ?bd ?bad)" by code_simp
  have t: "botType (classify noBotUA noLabel ?bd ?bad) = Some ''Malicious''" by code_simp
  note dc = rerun_converges [of noBotUA noLabel ?bd ?dc, unfolded Let_def]
  from dc [THEN conjunct2, THEN conjunct2, THEN conjunct2, THEN conjunct1, rule_format, OF h]
  have 1: "processRow noBotUA noLabel ?bd (applyPatch (fst (processRow noBotUA noLabel ?bd ?dc)) ?dc) = ([], None)" .
  note bad = rerun_converges [of noBotUA noLabel ?bd ?bad, unfolded Let_def]
  from bad [THEN conjunct2, THEN conjunct2, THEN conjunct2, THEN conjunct2, rule_format, OF b, THEN conjunct1] t
  have 2: "map_of (fst (processRow noBotUA noLabel ?bd (applyPatch (fst (processRow noBotUA noLabel ?bd ?bad)) ?bad)))
             ''bot_type'' = Some (JStr ''Malicious'')"
    by auto
  from bad [THEN conjunct2, THEN conjunct2, THEN conjunct1]
  have 3: "map_of (fst (processRow noBotUA noLabel ?bd (applyPatch (fst (processRow noBotUA noLabel ?bd ?bad)) ?bad)))
             ''is_bot'' = None"
    by (simp only: list.pred_inject)
  from h f 1 b t 2 3 show ?thesis by (intro conjI)
qed

text \<open>
  A record classified as a bot gets its bot type and source again at every run: they are
  never compared with the stored state.
\<close>

theorem rerun_counterexample:
  "classify noBotUA noLabel (loadAllBotData exExact)
     (applyPatch (fst (processRow noBotUA noLabel (loadAllBotData exExact) (exRow (Some ''66.249.66.1'') JNull JNull)))
        (exRow (Some ''66.249.66.1'') JNull JNull))
     = classify noBotUA noLabel (loadAllBotData exExact) (exRow (Some ''66.249.66.1'') JNull JNull)
   \<and> processRow noBotUA noLabel (loadAllBotData exExact)
     (applyPatch (fst (processRow noBotUA noLabel (loadAllBotData exExact) (exRow (Some ''66.249.66.1'') JNull JNull)))
        (exRow (Some ''66.249.66.1'') JNull JNull))
     = ([(''bot_type'', JStr ''Crawler''), (''bot_identification_source'', JStr ''PostHog-Bot-List'')],
        Some \<lparr>ev_event = ''$set'',
              ev_set = [(''bot_type'', JStr ''Crawler''), (''bot_identification_source'', JStr ''PostHog-Bot-List'')],
              ev_distinct_id = ''abc-123'', ev_anon_distinct_id = None\<rparr>)"
  by code_simp

end
